theory Spec2Isabelle
  imports Main "HOL-Library.Sublist" "HOL-Library.AList"
begin

section \<open>Strings and paths\<close>

text \<open>
  A Python \<open>str\<close> is a HOL \<open>string\<close>. The string methods the program calls are
  written out below: \<open>startswith\<close>, \<open>endswith\<close>, \<open>lower\<close>, \<open>split\<close> with a
  separator, \<open>join\<close>, \<open>rfind\<close> and the decimal \<open>str\<close> of a non-negative integer.
  \<open>lower\<close> maps the letters A to Z and leaves every other character alone; no
  other character of Python becomes a dot or one of the letters p, d, f in lower
  case, so this decides the test for the suffix \<open>.pdf\<close> as Python does.
\<close>

type_synonym path = string

definition str_startswith :: "string \<Rightarrow> string \<Rightarrow> bool" where
  "str_startswith s p = prefix p s"

definition str_endswith :: "string \<Rightarrow> string \<Rightarrow> bool" where
  "str_endswith s p = suffix p s"

definition lower_char :: "char \<Rightarrow> char" where
  "lower_char c =
     (let n = (of_char c :: nat) in if 65 \<le> n \<and> n \<le> 90 then char_of (n + 32) else c)"

definition str_lower :: "string \<Rightarrow> string" where
  "str_lower s = map lower_char s"

text \<open>
  \<open>s.split(sep)\<close> scans from the left and cuts at every occurrence of \<open>sep\<close> that
  does not overlap the previous one; \<open>cur\<close> is the piece being read. Python refuses
  an empty separator; the program only ever passes the two-character one, and
  \<open>split_from\<close> does not cut on an empty one.
\<close>

function split_from :: "'a list \<Rightarrow> 'a list \<Rightarrow> 'a list \<Rightarrow> 'a list list" where
  "split_from sep cur [] = [cur]"
| "split_from sep cur (c # cs) =
     (if sep \<noteq> [] \<and> prefix sep (c # cs)
      then cur # split_from sep [] (drop (length sep) (c # cs))
      else split_from sep (cur @ [c]) cs)"
  by pat_completeness auto
termination
  by (relation "measure (\<lambda>(sep, cur, s). length s)") auto

definition str_split :: "string \<Rightarrow> string \<Rightarrow> string list" where
  "str_split s sep = split_from sep [] s"

fun str_join :: "string \<Rightarrow> string list \<Rightarrow> string" where
  "str_join sep [] = []"
| "str_join sep [x] = x"
| "str_join sep (x # y # ys) = x @ sep @ str_join sep (y # ys)"

fun rfind_from :: "char \<Rightarrow> string \<Rightarrow> int \<Rightarrow> int \<Rightarrow> int" where
  "rfind_from c [] i found = found"
| "rfind_from c (x # xs) i found = rfind_from c xs (i + 1) (if x = c then i else found)"

definition str_rfind :: "string \<Rightarrow> char \<Rightarrow> int" where
  "str_rfind s c = rfind_from c s 0 (- 1)"

definition digit_char :: "nat \<Rightarrow> char" where
  "digit_char d = char_of (48 + d)"

function str_nat :: "nat \<Rightarrow> string" where
  "str_nat n = (if n < 10 then [digit_char n] else str_nat (n div 10) @ [digit_char (n mod 10)])"
  by pat_completeness auto
termination
  by (relation "measure (\<lambda>n. n)") auto

declare str_nat.simps [simp del]

text \<open>
  \<open>os.path\<close> with the POSIX separator: \<open>join\<close> of two components, \<open>basename\<close> and
  \<open>splitext\<close>. \<open>splitext_loop\<close> is the loop of \<open>splitext\<close> that skips the leading
  dots of the last component, so that a name made of dots and a suffix has no
  extension.
\<close>

definition os_path_join :: "path \<Rightarrow> string \<Rightarrow> path" where
  "os_path_join a b =
     (if str_startswith b ''/'' then b
      else if a = [] \<or> str_endswith a ''/'' then a @ b
      else a @ ''/'' @ b)"

definition os_path_basename :: "path \<Rightarrow> string" where
  "os_path_basename p = drop (nat (str_rfind p (CHR ''/'') + 1)) p"

function splitext_loop :: "string \<Rightarrow> int \<Rightarrow> int \<Rightarrow> string \<times> string" where
  "splitext_loop p filenameIndex dotIndex =
     (if filenameIndex < dotIndex
      then (if take 1 (drop (nat filenameIndex) p) \<noteq> ''.''
            then (take (nat dotIndex) p, drop (nat dotIndex) p)
            else splitext_loop p (filenameIndex + 1) dotIndex)
      else (p, []))"
  by pat_completeness auto
termination
  by (relation "measure (\<lambda>(p, filenameIndex, dotIndex). nat (dotIndex - filenameIndex))") auto

declare splitext_loop.simps [simp del]

definition os_path_splitext :: "path \<Rightarrow> string \<times> string" where
  "os_path_splitext p =
     (let sepIndex = str_rfind p (CHR ''/'');
          dotIndex = str_rfind p (CHR ''.'')
      in if dotIndex > sepIndex then splitext_loop p (sepIndex + 1) dotIndex else (p, []))"

section \<open>Documents, exceptions and the outside world\<close>

text \<open>
  A Document is one parsed page; the program reads only its text. The mapping the
  loader returns is a Python dict: an association list in insertion order, where
  storing under a key that is present replaces the value in place.
\<close>

record Document =
  doc_text :: string

type_synonym result_dict = "(string \<times> Document list) list"

text \<open>
  The texts the program formats are kept structured, one constructor for each literal
  of the source: \<open>KeyNotSet\<close> is the message of the \<open>ValueError\<close> raised when the
  credential is missing, \<open>KeyLoadFailed m\<close> the message \<open>api_key_load\<close> builds around
  \<open>str(e)\<close>, and \<open>Msg\<close> any text that comes from outside the program. The exceptions
  are instances of \<open>Exception\<close>, told apart as far as the handlers of the program do.
\<close>

datatype message = Msg string | KeyNotSet | KeyLoadFailed message

datatype exn = ValueError message | PermissionError message | OtherException message

fun str_exn :: "exn \<Rightarrow> message" where
  "str_exn (ValueError m) = m"
| "str_exn (PermissionError m) = m"
| "str_exn (OtherException m) = m"

datatype console =
    SavedPage nat path
  | FolderMissing path
  | NotAFolder path
  | NoPdfFiles path
  | PdfFilesFound path nat
  | ParsedFile string nat
  | NoPermission path
  | LoadFailed message
  | MergedSaved path
  | KeyLoaded string

datatype event =
    LoadDotenv
  | GetEnv
  | NestAsyncioApply
  | PathExists path
  | PathIsDir path
  | ListDir path
  | NewLlamaParse
  | LoadData path
  | MakeDirs path
  | OpenWrite path string
  | Print console

datatype node = Dir | File string

text \<open>
  The world is what the program's calls to the operating system and to the parsing
  library see and change. \<open>nodes\<close> is the file system by path; \<open>env_api_key\<close> is
  what \<open>os.getenv\<close> returns for the credential once \<open>load_dotenv\<close> has run;
  \<open>listing\<close> and \<open>parsed\<close> are the outcomes of \<open>os.listdir\<close> and of reading one
  PDF through the parser; the \<open>fault\<close> fields say which exception, if any, the
  outside raises when the call is made. \<open>trace\<close> records every such call, in order.
\<close>

record world =
  env_api_key :: "string option"
  dotenv_fault :: "exn option"
  nest_asyncio_fault :: "exn option"
  nodes :: "path \<Rightarrow> node option"
  listing :: "path \<Rightarrow> exn + string list"
  parser_fault :: "exn option"
  parsed :: "path \<Rightarrow> exn + Document list"
  makedirs_fault :: "path \<Rightarrow> exn option"
  write_fault :: "path \<Rightarrow> string \<Rightarrow> exn option"
  trace :: "event list"

type_synonym 'a io = "world \<Rightarrow> (exn + 'a) \<times> world"

definition io_return :: "'a \<Rightarrow> 'a io" where
  "io_return x w = (Inr x, w)"

definition io_raise :: "exn \<Rightarrow> 'a io" where
  "io_raise e w = (Inl e, w)"

definition io_bind :: "'a io \<Rightarrow> ('a \<Rightarrow> 'b io) \<Rightarrow> 'b io" where
  "io_bind m f w = (case m w of (Inl e, w') \<Rightarrow> (Inl e, w') | (Inr x, w') \<Rightarrow> f x w')"

definition io_try :: "'a io \<Rightarrow> (exn \<Rightarrow> 'a io) \<Rightarrow> 'a io" where
  "io_try m handler w = (case m w of (Inl e, w') \<Rightarrow> handler e w' | (Inr x, w') \<Rightarrow> (Inr x, w'))"

definition emit :: "event \<Rightarrow> world \<Rightarrow> world" where
  "emit ev w = w\<lparr>trace := trace w @ [ev]\<rparr>"

definition fault_or :: "exn option \<Rightarrow> 'a \<Rightarrow> world \<Rightarrow> (exn + 'a) \<times> world" where
  "fault_or fault x w = (case fault of Some e \<Rightarrow> (Inl e, w) | None \<Rightarrow> (Inr x, w))"

definition print_line :: "console \<Rightarrow> unit io" where
  "print_line line w = (Inr (), emit (Print line) w)"

definition load_dotenv :: "unit io" where
  "load_dotenv w = fault_or (dotenv_fault w) () (emit LoadDotenv w)"

definition os_getenv :: "string option io" where
  "os_getenv w = (Inr (env_api_key w), emit GetEnv w)"

definition nest_asyncio_apply :: "unit io" where
  "nest_asyncio_apply w = fault_or (nest_asyncio_fault w) () (emit NestAsyncioApply w)"

text \<open>\<open>os.path.exists\<close> and \<open>os.path.isdir\<close> never raise; the empty path names nothing.\<close>

definition path_exists :: "world \<Rightarrow> path \<Rightarrow> bool" where
  "path_exists w p = (p \<noteq> [] \<and> nodes w p \<noteq> None)"

definition path_isdir :: "world \<Rightarrow> path \<Rightarrow> bool" where
  "path_isdir w p = (p \<noteq> [] \<and> nodes w p = Some Dir)"

definition os_path_exists :: "path \<Rightarrow> bool io" where
  "os_path_exists p w = (Inr (path_exists w p), emit (PathExists p) w)"

definition os_path_isdir :: "path \<Rightarrow> bool io" where
  "os_path_isdir p w = (Inr (path_isdir w p), emit (PathIsDir p) w)"

definition os_listdir :: "path \<Rightarrow> string list io" where
  "os_listdir p w = (listing w p, emit (ListDir p) w)"

definition LlamaParse :: "unit io" where
  "LlamaParse w = fault_or (parser_fault w) () (emit NewLlamaParse w)"

definition load_data :: "path \<Rightarrow> Document list io" where
  "load_data pdf_file w = (parsed w pdf_file, emit (LoadData pdf_file) w)"

definition os_makedirs :: "path \<Rightarrow> unit io" where
  "os_makedirs p w =
     (case makedirs_fault w p of
        Some e \<Rightarrow> (Inl e, emit (MakeDirs p) w)
      | None \<Rightarrow> (Inr (), emit (MakeDirs p) (w\<lparr>nodes := (nodes w)(p \<mapsto> Dir)\<rparr>)))"

text \<open>\<open>with open(filepath, "w", encoding="utf-8") as f: f.write(content)\<close>.\<close>

definition open_write :: "path \<Rightarrow> string \<Rightarrow> unit io" where
  "open_write p content w =
     (case write_fault w p content of
        Some e \<Rightarrow> (Inl e, emit (OpenWrite p content) w)
      | None \<Rightarrow> (Inr (), emit (OpenWrite p content) (w\<lparr>nodes := (nodes w)(p \<mapsto> File content)\<rparr>)))"

section \<open>The program\<close>

subsection \<open>\<open>save_documents_as_markdown\<close>\<close>

fun save_loop :: "path \<Rightarrow> nat \<Rightarrow> Document list \<Rightarrow> unit io" where
  "save_loop output_folder i [] = io_return ()"
| "save_loop output_folder i (doc # rest) =
     (let filename = ''document_'' @ str_nat (i + 1) @ ''.md'';
          filepath = os_path_join output_folder filename
      in io_bind (open_write filepath (doc_text doc)) (\<lambda>_.
         io_bind (print_line (SavedPage (i + 1) filepath)) (\<lambda>_.
         save_loop output_folder (i + 1) rest)))"

definition save_documents_as_markdown :: "Document list \<Rightarrow> path \<Rightarrow> unit io" where
  "save_documents_as_markdown documents output_folder =
     io_bind (os_path_exists output_folder) (\<lambda>present.
     io_bind (if \<not> present then os_makedirs output_folder else io_return ()) (\<lambda>_.
     save_loop output_folder 0 documents))"

subsection \<open>\<open>api_key_load\<close>\<close>

definition api_key_load_body :: "string io" where
  "api_key_load_body =
     io_bind load_dotenv (\<lambda>_.
     io_bind os_getenv (\<lambda>LLAMA_CLOUD_API_KEY.
       case LLAMA_CLOUD_API_KEY of
         None \<Rightarrow> io_raise (ValueError KeyNotSet)
       | Some key \<Rightarrow>
           if key = [] then io_raise (ValueError KeyNotSet)
           else io_bind nest_asyncio_apply (\<lambda>_.
                io_bind (print_line (KeyLoaded (take 5 key))) (\<lambda>_.
                io_return key))))"

definition api_key_load :: "string io" where
  "api_key_load = io_try api_key_load_body (\<lambda>e. io_raise (ValueError (KeyLoadFailed (str_exn e))))"

subsection \<open>\<open>pdf_file_load\<close>\<close>

fun select_loop :: "path \<Rightarrow> string list \<Rightarrow> path list \<Rightarrow> path list" where
  "select_loop folder_path [] pdf_files = pdf_files"
| "select_loop folder_path (file # rest) pdf_files =
     (if str_endswith (str_lower file) ''.pdf''
      then select_loop folder_path rest (pdf_files @ [os_path_join folder_path file])
      else select_loop folder_path rest pdf_files)"

fun parse_loop :: "path list \<Rightarrow> result_dict \<Rightarrow> result_dict io" where
  "parse_loop [] result_dict = io_return result_dict"
| "parse_loop (pdf_file # rest) result_dict =
     (let filename = fst (os_path_splitext (os_path_basename pdf_file))
      in io_bind (load_data pdf_file) (\<lambda>documents.
         io_bind (print_line (ParsedFile filename (length documents))) (\<lambda>_.
         parse_loop rest (AList.update filename documents result_dict))))"

definition pdf_file_load_body :: "path \<Rightarrow> result_dict io" where
  "pdf_file_load_body folder_path =
     io_bind api_key_load (\<lambda>_.
     io_bind (os_path_exists folder_path) (\<lambda>present.
       if \<not> present
       then io_bind (print_line (FolderMissing folder_path)) (\<lambda>_. io_return [])
       else
     io_bind (os_path_isdir folder_path) (\<lambda>is_dir.
       if \<not> is_dir
       then io_bind (print_line (NotAFolder folder_path)) (\<lambda>_. io_return [])
       else
     io_bind LlamaParse (\<lambda>_.
     io_bind (os_listdir folder_path) (\<lambda>entries.
       let pdf_files = select_loop folder_path entries []
       in if pdf_files = []
          then io_bind (print_line (NoPdfFiles folder_path)) (\<lambda>_. io_return [])
          else io_bind (print_line (PdfFilesFound folder_path (length pdf_files))) (\<lambda>_.
               parse_loop pdf_files []))))))"

definition pdf_file_load_handler :: "path \<Rightarrow> exn \<Rightarrow> result_dict io" where
  "pdf_file_load_handler folder_path e =
     (case e of
        PermissionError m \<Rightarrow> io_bind (print_line (NoPermission folder_path)) (\<lambda>_. io_return [])
      | _ \<Rightarrow> io_bind (print_line (LoadFailed (str_exn e))) (\<lambda>_. io_return []))"

definition pdf_file_load :: "path \<Rightarrow> result_dict io" where
  "pdf_file_load folder_path =
     io_try (pdf_file_load_body folder_path) (pdf_file_load_handler folder_path)"

subsection \<open>\<open>merge_documents_to_single_markdown\<close>\<close>

fun merge_loop :: "nat \<Rightarrow> Document list \<Rightarrow> string \<Rightarrow> string" where
  "merge_loop i [] merged_content = merged_content"
| "merge_loop i (doc # rest) merged_content =
     (let current_text = doc_text doc;
          current_text =
            (if i > 0 \<and> current_text \<noteq> []
             then (let lines = str_split current_text ''\<newline>\<newline>''
                   in if length lines > 0 then str_join ''\<newline>'' (drop 1 lines)
                      else current_text)
             else current_text);
          current_text = current_text @ '' ''
      in merge_loop (i + 1) rest (merged_content @ current_text))"

definition merge_documents_to_single_markdown ::
    "Document list \<Rightarrow> path \<Rightarrow> string \<Rightarrow> unit io" where
  "merge_documents_to_single_markdown documents output_folder filename =
     io_bind (os_path_exists output_folder) (\<lambda>present.
     io_bind (if \<not> present then os_makedirs output_folder else io_return ()) (\<lambda>_.
       let merged_filepath = os_path_join output_folder (filename @ ''.md'');
           merged_content = merge_loop 0 documents []
       in io_bind (open_write merged_filepath merged_content) (\<lambda>_.
          print_line (MergedSaved merged_filepath))))"

section \<open>Worlds the theorems are run on\<close>

text \<open>
  \<open>quiet_world\<close>: the credential is set, the file system is empty and nothing fails.
\<close>

definition quiet_world :: world where
  "quiet_world =
     \<lparr>env_api_key = Some ''llx-0123456789'',
      dotenv_fault = None,
      nest_asyncio_fault = None,
      nodes = (\<lambda>p. None),
      listing = (\<lambda>p. Inr []),
      parser_fault = None,
      parsed = (\<lambda>p. Inr []),
      makedirs_fault = (\<lambda>p. None),
      write_fault = (\<lambda>p content. None),
      trace = []\<rparr>"

text \<open>What one page adds to the merged content when it is read at index \<open>i\<close>.\<close>

definition page_part :: "nat \<Rightarrow> Document \<Rightarrow> string" where
  "page_part i doc = merge_loop i [doc] []"

text \<open>
  \<open>folder_world\<close>: the folder \<open>data\<close> is a directory that lists the given entries,
  and \<open>pr\<close> says what parsing each path gives. \<open>no_key_world\<close> has no credential.
  In \<open>pdf_world\<close> the folder holds two PDFs and a text file, in \<open>clash_world\<close> two
  PDFs whose names differ in the case of the extension only, and in
  \<open>broken_world\<close> the parser fails on the second of two PDFs.
\<close>

definition folder_world :: "string list \<Rightarrow> (path \<Rightarrow> exn + Document list) \<Rightarrow> world" where
  "folder_world entries pr =
     quiet_world\<lparr>nodes := (\<lambda>p. if p = ''data'' then Some Dir else None),
                 listing := (\<lambda>p. if p = ''data'' then Inr entries
                                 else Inl (OtherException (Msg ''no such directory''))),
                 parsed := pr\<rparr>"

definition no_key_world :: world where
  "no_key_world = quiet_world\<lparr>env_api_key := None\<rparr>"

definition pdf_world :: world where
  "pdf_world = folder_world [''a.pdf'', ''notes.txt'', ''B.PDF''] (\<lambda>p. Inr [\<lparr>doc_text = p\<rparr>])"

definition clash_world :: world where
  "clash_world = folder_world [''a.pdf'', ''a.PDF''] (\<lambda>p. Inr [\<lparr>doc_text = p\<rparr>])"

definition broken_world :: world where
  "broken_world = folder_world [''a.pdf'', ''b.pdf'']
     (\<lambda>p. if p = ''data/b.pdf'' then Inl (OtherException (Msg ''timeout''))
          else Inr [\<lparr>doc_text = p\<rparr>])"

text \<open>
  Names for what the theorems speak about. \<open>stem_of\<close> is the key \<open>parse_loop\<close>
  stores a file under. \<open>parse_all\<close> is the result of \<open>parse_loop\<close> as a function of
  the parser's outcomes, and \<open>attempted\<close> the files it hands to the parser: all of
  them up to the first that fails. \<open>load_paths\<close> reads the parser calls off a trace,
  \<open>folder_access\<close> tells the calls that touch the file system or a file.
\<close>

definition stem_of :: "path \<Rightarrow> string" where
  "stem_of pdf_file = fst (os_path_splitext (os_path_basename pdf_file))"

fun parse_all ::
    "(path \<Rightarrow> exn + Document list) \<Rightarrow> path list \<Rightarrow> result_dict \<Rightarrow> exn + result_dict" where
  "parse_all pr [] rd = Inr rd"
| "parse_all pr (p # ps) rd =
     (case pr p of
        Inl e \<Rightarrow> Inl e
      | Inr docs \<Rightarrow> parse_all pr ps (AList.update (stem_of p) docs rd))"

fun attempted :: "(path \<Rightarrow> exn + Document list) \<Rightarrow> path list \<Rightarrow> path list" where
  "attempted pr [] = []"
| "attempted pr (p # ps) = p # (case pr p of Inl e \<Rightarrow> [] | Inr docs \<Rightarrow> attempted pr ps)"

fun load_paths :: "event list \<Rightarrow> path list" where
  "load_paths [] = []"
| "load_paths (LoadData p # evs) = p # load_paths evs"
| "load_paths (ev # evs) = load_paths evs"

fun folder_access :: "event \<Rightarrow> bool" where
  "folder_access (PathExists p) = True"
| "folder_access (PathIsDir p) = True"
| "folder_access (ListDir p) = True"
| "folder_access (LoadData p) = True"
| "folder_access (MakeDirs p) = True"
| "folder_access (OpenWrite p content) = True"
| "folder_access ev = False"

text \<open>
  \<open>page_path output_folder i\<close> is the file \<open>save_loop\<close> writes the page at index
  \<open>i\<close> to, and \<open>written\<close> reads the files written, with their contents, off a trace.
\<close>

definition page_path :: "path \<Rightarrow> nat \<Rightarrow> path" where
  "page_path output_folder i =
     os_path_join output_folder (''document_'' @ str_nat (i + 1) @ ''.md'')"

fun written :: "event list \<Rightarrow> (path \<times> string) list" where
  "written [] = []"
| "written (OpenWrite p content # evs) = (p, content) # written evs"
| "written (ev # evs) = written evs"

section \<open>Splitting and joining\<close>

lemmas io_defs = io_return_def io_raise_def io_bind_def io_try_def emit_def fault_or_def
  print_line_def load_dotenv_def os_getenv_def nest_asyncio_apply_def os_path_exists_def
  os_path_isdir_def os_listdir_def LlamaParse_def load_data_def os_makedirs_def open_write_def

lemma split_from_no_sep: "\<not> sublist sep s \<Longrightarrow> split_from sep cur s = [cur @ s]"
proof (induction s arbitrary: cur)
  case Nil
  then show ?case by simp
next
  case (Cons c cs)
  from Cons.prems have np: "\<not> prefix sep (c # cs)" and ns: "\<not> sublist sep cs"
    by (auto simp: sublist_Cons_right)
  from Cons.IH [OF ns] np show ?case by simp
qed

lemma str_split_no_sep: "\<not> sublist sep s \<Longrightarrow> str_split s sep = [s]"
  by (simp add: str_split_def split_from_no_sep)

lemma str_split_empty: "str_split [] sep = [[]]"
  by (simp add: str_split_def)

lemma split_from_nonempty: "split_from sep cur s \<noteq> []"
  by (induction sep cur s rule: split_from.induct) auto

lemma str_split_nonempty: "str_split s sep \<noteq> []"
  by (simp add: str_split_def split_from_nonempty)

lemma drop_one_tl: "drop (Suc 0) xs = tl xs"
  by (cases xs) simp_all

section \<open>The merge loop, page by page\<close>

lemma merge_loop_Cons: "merge_loop i (d # ds) acc = merge_loop (Suc i) ds (acc @ page_part i d)"
  by (simp add: page_part_def Let_def)

lemma merge_loop_acc: "merge_loop i docs acc = acc @ merge_loop i docs []"
proof (induction docs arbitrary: i acc)
  case Nil
  show ?case by simp
next
  case (Cons d ds)
  have "merge_loop i (d # ds) acc = (acc @ page_part i d) @ merge_loop (Suc i) ds []"
    unfolding merge_loop_Cons by (rule Cons.IH)
  moreover have "merge_loop i (d # ds) [] = page_part i d @ merge_loop (Suc i) ds []"
    unfolding merge_loop_Cons using Cons.IH [of "Suc i" "page_part i d"] by simp
  ultimately show ?case by simp
qed

lemma merge_loop_split:
  "merge_loop i (d # ds) [] = page_part i d @ merge_loop (Suc i) ds []"
  unfolding merge_loop_Cons using merge_loop_acc [of "Suc i" ds "page_part i d"] by simp

lemma merge_loop_append:
  "merge_loop i (xs @ ys) [] = merge_loop i xs [] @ merge_loop (i + length xs) ys []"
proof (induction xs arbitrary: i)
  case Nil
  show ?case by simp
next
  case (Cons x xs)
  have "merge_loop i ((x # xs) @ ys) [] = page_part i x @ merge_loop (Suc i) (xs @ ys) []"
    using merge_loop_split [of i x "xs @ ys"] by simp
  also have "\<dots> = page_part i x @ merge_loop (Suc i) xs [] @ merge_loop (Suc i + length xs) ys []"
    by (simp only: Cons.IH)
  also have "\<dots> = merge_loop i (x # xs) [] @ merge_loop (i + length (x # xs)) ys []"
    by (simp only: merge_loop_split) simp
  finally show ?case .
qed

lemma page_part_first: "page_part 0 d = doc_text d @ '' ''"
  by (simp add: page_part_def Let_def)

lemma page_part_later:
  assumes "0 < i"
  shows "page_part i d =
           str_join ''\<newline>'' (tl (str_split (doc_text d) ''\<newline>\<newline>'')) @ '' ''"
proof (cases "doc_text d = []")
  case True
  with assms show ?thesis by (simp add: page_part_def Let_def str_split_empty)
next
  case False
  with assms show ?thesis
    by (simp add: page_part_def Let_def str_split_nonempty drop_one_tl)
qed

lemma page_part_no_break:
  assumes "0 < i" and "\<not> sublist ''\<newline>\<newline>'' (doc_text d)"
  shows "page_part i d = '' ''"
  using assms by (simp add: page_part_later str_split_no_sep)

lemma merge_loop_three:
  "merge_loop 0 [p0, p1, p2] [] =
     doc_text p0 @ '' '' @
     str_join ''\<newline>'' (tl (str_split (doc_text p1) ''\<newline>\<newline>'')) @ '' '' @
     str_join ''\<newline>'' (tl (str_split (doc_text p2) ''\<newline>\<newline>'')) @ '' ''"
  by (simp only: merge_loop_split page_part_first) (simp add: page_part_later)

lemma merge_loop_at:
  assumes "i < length docs"
  shows "merge_loop 0 docs [] =
           merge_loop 0 (take i docs) [] @ page_part i (docs ! i) @
           merge_loop (Suc i) (drop (Suc i) docs) []"
proof -
  have "docs = take i docs @ docs ! i # drop (Suc i) docs"
    using assms by (rule id_take_nth_drop)
  then have "merge_loop 0 docs [] = merge_loop 0 (take i docs @ docs ! i # drop (Suc i) docs) []"
    by simp
  also have "\<dots> = merge_loop 0 (take i docs) [] @
      merge_loop (0 + length (take i docs)) (docs ! i # drop (Suc i) docs) []"
    by (rule merge_loop_append)
  also have "0 + length (take i docs) = i"
    using assms by simp
  finally show ?thesis
    by (simp only: merge_loop_split)
qed

section \<open>What the merger writes\<close>

lemma merge_run:
  assumes "path_exists w out \<or> makedirs_fault w out = None"
      and "write_fault w (os_path_join out (name @ ''.md'')) (merge_loop 0 docs []) = None"
  shows "fst (merge_documents_to_single_markdown docs out name w) = Inr ()"
    and "nodes (snd (merge_documents_to_single_markdown docs out name w))
           (os_path_join out (name @ ''.md'')) = Some (File (merge_loop 0 docs []))"
    and "trace (snd (merge_documents_to_single_markdown docs out name w)) =
           trace w @ [PathExists out] @ (if path_exists w out then [] else [MakeDirs out]) @
           [OpenWrite (os_path_join out (name @ ''.md'')) (merge_loop 0 docs []),
            Print (MergedSaved (os_path_join out (name @ ''.md'')))]"
  using assms
  by (cases "path_exists w out";
      simp add: merge_documents_to_single_markdown_def io_defs Let_def)+

text \<open>
  C6. A DocumentSet of one page: the merged file holds the text of that page as it
  is, followed by one space. The page is at index 0, so nothing is split off it.
  The file is written whenever the output folder is there or can be made and the
  file can be written.
\<close>

theorem merge_single_page:
  assumes "path_exists w out \<or> makedirs_fault w out = None"
      and "write_fault w (os_path_join out (name @ ''.md'')) (doc_text p0 @ '' '') = None"
  shows "fst (merge_documents_to_single_markdown [p0] out name w) = Inr () \<and>
         nodes (snd (merge_documents_to_single_markdown [p0] out name w))
           (os_path_join out (name @ ''.md'')) = Some (File (doc_text p0 @ '' ''))"
proof -
  have content: "merge_loop 0 [p0] [] = doc_text p0 @ '' ''"
    by (simp add: Let_def)
  from assms(2) have "write_fault w (os_path_join out (name @ ''.md'')) (merge_loop 0 [p0] []) = None"
    by (simp only: content)
  from merge_run(1,2) [OF assms(1) this] show ?thesis
    by (simp only: content)
qed

theorem merge_single_page_witness:
  "makedirs_fault quiet_world ''pdf2markdown'' = None \<and>
   fst (merge_documents_to_single_markdown
          [\<lparr>doc_text = ''# Title\<newline>\<newline>body''\<rparr>] ''pdf2markdown'' ''a'' quiet_world) = Inr () \<and>
   nodes (snd (merge_documents_to_single_markdown
          [\<lparr>doc_text = ''# Title\<newline>\<newline>body''\<rparr>] ''pdf2markdown'' ''a'' quiet_world))
     ''pdf2markdown/a.md'' = Some (File ''# Title\<newline>\<newline>body '')"
proof -
  have h1: "path_exists quiet_world ''pdf2markdown'' \<or> makedirs_fault quiet_world ''pdf2markdown'' = None"
    by (simp add: quiet_world_def)
  have h2: "write_fault quiet_world (os_path_join ''pdf2markdown'' (''a'' @ ''.md''))
              (doc_text \<lparr>doc_text = ''# Title\<newline>\<newline>body''\<rparr> @ '' '') = None"
    by (simp add: quiet_world_def)
  have j: "os_path_join ''pdf2markdown'' ''a.md'' = ''pdf2markdown/a.md''"
    by code_simp
  have m: "makedirs_fault quiet_world ''pdf2markdown'' = None"
    by (simp add: quiet_world_def)
  from merge_single_page [OF h1 h2] m show ?thesis
    by (simp add: j)
qed

text \<open>
  C1. A DocumentSet of three pages: the merged file holds the text of the first page
  and one space, then for each of the two later pages its text split at every
  double newline, without the first piece, the other pieces joined by one newline,
  and one space. Nothing else stands between the pages. This holds for every text
  of the three pages, the non-empty ones among them.
\<close>

theorem merge_three_pages:
  assumes "path_exists w out \<or> makedirs_fault w out = None"
      and "write_fault w (os_path_join out (name @ ''.md''))
             (doc_text p0 @ '' '' @
              str_join ''\<newline>'' (tl (str_split (doc_text p1) ''\<newline>\<newline>'')) @ '' '' @
              str_join ''\<newline>'' (tl (str_split (doc_text p2) ''\<newline>\<newline>'')) @ '' '') = None"
  shows "fst (merge_documents_to_single_markdown [p0, p1, p2] out name w) = Inr () \<and>
         nodes (snd (merge_documents_to_single_markdown [p0, p1, p2] out name w))
           (os_path_join out (name @ ''.md'')) =
         Some (File (doc_text p0 @ '' '' @
              str_join ''\<newline>'' (tl (str_split (doc_text p1) ''\<newline>\<newline>'')) @ '' '' @
              str_join ''\<newline>'' (tl (str_split (doc_text p2) ''\<newline>\<newline>'')) @ '' ''))"
proof -
  from assms(2)
  have "write_fault w (os_path_join out (name @ ''.md'')) (merge_loop 0 [p0, p1, p2] []) = None"
    by (simp only: merge_loop_three)
  from merge_run(1,2) [OF assms(1) this] show ?thesis
    by (simp only: merge_loop_three)
qed

theorem merge_three_pages_witness:
  "makedirs_fault quiet_world ''pdf2markdown'' = None \<and>
   fst (merge_documents_to_single_markdown
          [\<lparr>doc_text = ''# T\<newline>\<newline>one''\<rparr>,
           \<lparr>doc_text = ''# T\<newline>\<newline>two\<newline>\<newline>three''\<rparr>,
           \<lparr>doc_text = ''# T\<newline>\<newline>\<newline>four''\<rparr>] ''pdf2markdown'' ''a'' quiet_world) = Inr () \<and>
   nodes (snd (merge_documents_to_single_markdown
          [\<lparr>doc_text = ''# T\<newline>\<newline>one''\<rparr>,
           \<lparr>doc_text = ''# T\<newline>\<newline>two\<newline>\<newline>three''\<rparr>,
           \<lparr>doc_text = ''# T\<newline>\<newline>\<newline>four''\<rparr>] ''pdf2markdown'' ''a'' quiet_world))
     ''pdf2markdown/a.md'' = Some (File ''# T\<newline>\<newline>one two\<newline>three \<newline>four '')"
proof -
  have h1: "path_exists quiet_world ''pdf2markdown'' \<or> makedirs_fault quiet_world ''pdf2markdown'' = None"
    by (simp add: quiet_world_def)
  have h2: "write_fault quiet_world p c = None" for p c
    by (simp add: quiet_world_def)
  have j: "os_path_join ''pdf2markdown'' ''a.md'' = ''pdf2markdown/a.md''"
    by code_simp
  have s1: "str_join ''\<newline>'' (tl (str_split ''# T\<newline>\<newline>two\<newline>\<newline>three'' ''\<newline>\<newline>'')) = ''two\<newline>three''"
    by code_simp
  have s2: "str_join ''\<newline>'' (tl (str_split ''# T\<newline>\<newline>\<newline>four'' ''\<newline>\<newline>'')) = ''\<newline>four''"
    by code_simp
  have m: "makedirs_fault quiet_world ''pdf2markdown'' = None"
    by (simp add: quiet_world_def)
  from merge_three_pages [of quiet_world "''pdf2markdown''" "''a''"
      "\<lparr>doc_text = ''# T\<newline>\<newline>one''\<rparr>"
      "\<lparr>doc_text = ''# T\<newline>\<newline>two\<newline>\<newline>three''\<rparr>"
      "\<lparr>doc_text = ''# T\<newline>\<newline>\<newline>four''\<rparr>", OF h1 h2] m
  show ?thesis
    by (simp add: j s1 s2)
qed

text \<open>
  C3. A page at an index above 0 whose text is empty or has no double newline adds
  one space to the merged file and nothing of its text: the whole text is the first
  piece of the split and is dropped. The merged file is what the pages before it
  give, one space, and what the pages after it give.
\<close>

theorem merge_page_without_break:
  assumes "0 < i" and "i < length docs"
      and "doc_text (docs ! i) = [] \<or> \<not> sublist ''\<newline>\<newline>'' (doc_text (docs ! i))"
      and "path_exists w out \<or> makedirs_fault w out = None"
      and "write_fault w (os_path_join out (name @ ''.md'')) (merge_loop 0 docs []) = None"
  shows "fst (merge_documents_to_single_markdown docs out name w) = Inr () \<and>
         nodes (snd (merge_documents_to_single_markdown docs out name w))
           (os_path_join out (name @ ''.md'')) =
         Some (File (merge_loop 0 (take i docs) [] @ '' '' @
                     merge_loop (Suc i) (drop (Suc i) docs) []))"
proof -
  from assms(3) have "\<not> sublist ''\<newline>\<newline>'' (doc_text (docs ! i))"
    by auto
  with assms(1) have "page_part i (docs ! i) = '' ''"
    by (rule page_part_no_break)
  with merge_loop_at [OF assms(2)]
  have "merge_loop 0 docs [] =
          merge_loop 0 (take i docs) [] @ '' '' @ merge_loop (Suc i) (drop (Suc i) docs) []"
    by simp
  with merge_run(1,2) [OF assms(4,5)] show ?thesis
    by simp
qed

theorem merge_page_without_break_witness:
  "doc_text ([\<lparr>doc_text = ''# T\<newline>\<newline>one''\<rparr>, \<lparr>doc_text = ''only line''\<rparr>,
              \<lparr>doc_text = ''# T\<newline>\<newline>three''\<rparr>] ! 1) \<noteq> [] \<and>
   \<not> sublist ''\<newline>\<newline>'' (doc_text ([\<lparr>doc_text = ''# T\<newline>\<newline>one''\<rparr>, \<lparr>doc_text = ''only line''\<rparr>,
              \<lparr>doc_text = ''# T\<newline>\<newline>three''\<rparr>] ! 1)) \<and>
   nodes (snd (merge_documents_to_single_markdown
          [\<lparr>doc_text = ''# T\<newline>\<newline>one''\<rparr>, \<lparr>doc_text = ''only line''\<rparr>,
           \<lparr>doc_text = ''# T\<newline>\<newline>three''\<rparr>] ''pdf2markdown'' ''a'' quiet_world))
     ''pdf2markdown/a.md'' = Some (File ''# T\<newline>\<newline>one  three '')"
proof -
  let ?docs = "[\<lparr>doc_text = ''# T\<newline>\<newline>one''\<rparr>, \<lparr>doc_text = ''only line''\<rparr>,
                \<lparr>doc_text = ''# T\<newline>\<newline>three''\<rparr>]"
  have h1: "(0::nat) < 1" and h2: "1 < length ?docs"
    by simp_all
  have ns: "\<not> sublist ''\<newline>\<newline>'' ''only line''"
    by code_simp
  then have h3: "doc_text (?docs ! 1) = [] \<or> \<not> sublist ''\<newline>\<newline>'' (doc_text (?docs ! 1))"
    by simp
  have h4: "path_exists quiet_world ''pdf2markdown'' \<or> makedirs_fault quiet_world ''pdf2markdown'' = None"
    by (simp add: quiet_world_def)
  have h5: "write_fault quiet_world p c = None" for p c
    by (simp add: quiet_world_def)
  have j: "os_path_join ''pdf2markdown'' (''a'' @ ''.md'') = ''pdf2markdown/a.md''"
    by code_simp
  have r: "merge_loop 0 (take 1 ?docs) [] @ '' '' @ merge_loop (Suc 1) (drop (Suc 1) ?docs) [] =
             ''# T\<newline>\<newline>one  three ''"
    by code_simp
  from merge_page_without_break [of 1 ?docs quiet_world "''pdf2markdown''" "''a''",
      OF h1 h2 h3 h4 h5]
  have "nodes (snd (merge_documents_to_single_markdown ?docs ''pdf2markdown'' ''a'' quiet_world))
          ''pdf2markdown/a.md'' = Some (File ''# T\<newline>\<newline>one  three '')"
    by (simp only: r j)
  with ns show ?thesis
    by simp
qed

text \<open>
  C10. The empty DocumentSet: the merger still looks for the output folder, makes it
  when it is absent, and writes the output file with the empty string; these are
  all the calls it makes. It returns normally whenever the folder is there or can
  be made and the file can be written.
\<close>

theorem merge_empty_document_set:
  assumes "path_exists w out \<or> makedirs_fault w out = None"
      and "write_fault w (os_path_join out (name @ ''.md'')) [] = None"
  shows "fst (merge_documents_to_single_markdown [] out name w) = Inr () \<and>
         nodes (snd (merge_documents_to_single_markdown [] out name w))
           (os_path_join out (name @ ''.md'')) = Some (File []) \<and>
         trace (snd (merge_documents_to_single_markdown [] out name w)) =
           trace w @ [PathExists out] @ (if path_exists w out then [] else [MakeDirs out]) @
           [OpenWrite (os_path_join out (name @ ''.md'')) [],
            Print (MergedSaved (os_path_join out (name @ ''.md'')))]"
proof -
  have content: "merge_loop 0 [] [] = []"
    by simp
  from assms(2) have "write_fault w (os_path_join out (name @ ''.md'')) (merge_loop 0 [] []) = None"
    by (simp only: content)
  from merge_run [OF assms(1) this] show ?thesis
    by (simp only: content) 
qed

theorem merge_empty_document_set_witness:
  "\<not> path_exists quiet_world ''pdf2markdown'' \<and>
   fst (merge_documents_to_single_markdown [] ''pdf2markdown'' ''a'' quiet_world) = Inr () \<and>
   nodes (snd (merge_documents_to_single_markdown [] ''pdf2markdown'' ''a'' quiet_world))
     ''pdf2markdown/a.md'' = Some (File []) \<and>
   trace (snd (merge_documents_to_single_markdown [] ''pdf2markdown'' ''a'' quiet_world)) =
     [PathExists ''pdf2markdown'', MakeDirs ''pdf2markdown'',
      OpenWrite ''pdf2markdown/a.md'' [], Print (MergedSaved ''pdf2markdown/a.md'')]"
proof -
  have h0: "\<not> path_exists quiet_world ''pdf2markdown''"
    by (simp add: quiet_world_def path_exists_def)
  have h1: "path_exists quiet_world ''pdf2markdown'' \<or> makedirs_fault quiet_world ''pdf2markdown'' = None"
    by (simp add: quiet_world_def)
  have h2: "write_fault quiet_world p c = None" for p c
    by (simp add: quiet_world_def)
  have t: "trace quiet_world = []"
    by (simp add: quiet_world_def)
  have j: "os_path_join ''pdf2markdown'' ''a.md'' = ''pdf2markdown/a.md''"
    by code_simp
  from merge_empty_document_set [of quiet_world "''pdf2markdown''" "''a''", OF h1 h2] h0
  show ?thesis
    by (simp add: j t)
qed

section \<open>The loader, call by call\<close>

lemma emit_fields [simp]:
  "env_api_key (emit ev w) = env_api_key w"
  "dotenv_fault (emit ev w) = dotenv_fault w"
  "nest_asyncio_fault (emit ev w) = nest_asyncio_fault w"
  "nodes (emit ev w) = nodes w"
  "listing (emit ev w) = listing w"
  "parser_fault (emit ev w) = parser_fault w"
  "parsed (emit ev w) = parsed w"
  "makedirs_fault (emit ev w) = makedirs_fault w"
  "write_fault (emit ev w) = write_fault w"
  "trace (emit ev w) = trace w @ [ev]"
  by (simp_all add: emit_def)

lemma path_exists_emit [simp]: "path_exists (emit ev w) p = path_exists w p"
  by (simp add: path_exists_def)

lemma path_isdir_emit [simp]: "path_isdir (emit ev w) p = path_isdir w p"
  by (simp add: path_isdir_def)

lemmas call_defs = io_return_def io_raise_def io_bind_def io_try_def fault_or_def
  print_line_def load_dotenv_def os_getenv_def nest_asyncio_apply_def os_path_exists_def
  os_path_isdir_def os_listdir_def LlamaParse_def load_data_def

lemma load_paths_append: "load_paths (xs @ ys) = load_paths xs @ load_paths ys"
  by (induction xs rule: load_paths.induct) simp_all

lemma select_loop_eq:
  "select_loop folder entries acc =
     acc @ map (os_path_join folder)
             (filter (\<lambda>file. str_endswith (str_lower file) ''.pdf'') entries)"
  by (induction entries arbitrary: acc) simp_all

lemma parse_loop_fst: "fst (parse_loop ps rd w) = parse_all (parsed w) ps rd"
proof (induction ps arbitrary: rd w)
  case Nil
  show ?case by (simp add: io_return_def)
next
  case (Cons p ps)
  show ?case
  proof (cases "parsed w p")
    case (Inl e)
    then show ?thesis by (simp add: call_defs Let_def)
  next
    case (Inr docs)
    then show ?thesis by (simp add: call_defs Let_def Cons.IH stem_of_def)
  qed
qed

lemma attempted_prefix: "prefix (attempted pr ps) ps"
  by (induction ps) (simp_all split: sum.splits)

lemma parse_loop_loads:
  "load_paths (trace (snd (parse_loop ps rd w))) = load_paths (trace w) @ attempted (parsed w) ps"
proof (induction ps arbitrary: rd w)
  case Nil
  show ?case by (simp add: io_return_def)
next
  case (Cons p ps)
  show ?case
  proof (cases "parsed w p")
    case (Inl e)
    then show ?thesis
      by (simp add: call_defs Let_def load_paths_append)
  next
    case (Inr docs)
    then show ?thesis
      by (simp add: call_defs Let_def load_paths_append Cons.IH)
  qed
qed

lemma parse_all_Inr:
  "parse_all pr ps rd = Inr r \<Longrightarrow>
     (\<forall>p\<in>set ps. \<exists>docs. pr p = Inr docs) \<and>
     fst ` set r = fst ` set rd \<union> stem_of ` set ps \<and>
     (distinct (map fst rd) \<longrightarrow> distinct (map fst r))"
proof (induction ps arbitrary: rd)
  case Nil
  then show ?case by simp
next
  case (Cons p ps)
  from Cons.prems obtain docs where d: "pr p = Inr docs"
    and rest: "parse_all pr ps (AList.update (stem_of p) docs rd) = Inr r"
    by (auto split: sum.splits)
  from Cons.IH [OF rest] d show ?case
    by (auto simp: dom_update distinct_update)
qed

lemma parse_all_fails:
  "p \<in> set ps \<Longrightarrow> pr p = Inl e \<Longrightarrow> \<exists>e'. parse_all pr ps rd = Inl e'"
proof (induction ps arbitrary: rd)
  case Nil
  then show ?case by simp
next
  case (Cons q qs)
  show ?case
  proof (cases "pr q")
    case (Inl e0)
    then show ?thesis by simp
  next
    case (Inr docs)
    with Cons.prems have "p \<in> set qs" by auto
    from Cons.IH [OF this Cons.prems(2)] Inr show ?thesis by simp
  qed
qed

lemma parse_all_succeeds:
  "\<forall>p\<in>set ps. \<exists>docs. pr p = Inr docs \<Longrightarrow> \<exists>r. parse_all pr ps rd = Inr r"
proof (induction ps arbitrary: rd)
  case Nil
  then show ?case by simp
next
  case (Cons q qs)
  then obtain docs where "pr q = Inr docs" by auto
  with Cons show ?case by simp
qed

lemma api_key_load_eq:
  "api_key_load w =
     (case dotenv_fault w of
        Some e \<Rightarrow> (Inl (ValueError (KeyLoadFailed (str_exn e))), emit LoadDotenv w)
      | None \<Rightarrow>
         (case env_api_key w of
            None \<Rightarrow> (Inl (ValueError (KeyLoadFailed KeyNotSet)), emit GetEnv (emit LoadDotenv w))
          | Some key \<Rightarrow>
             if key = []
             then (Inl (ValueError (KeyLoadFailed KeyNotSet)), emit GetEnv (emit LoadDotenv w))
             else (case nest_asyncio_fault w of
                     Some e \<Rightarrow> (Inl (ValueError (KeyLoadFailed (str_exn e))),
                                emit NestAsyncioApply (emit GetEnv (emit LoadDotenv w)))
                   | None \<Rightarrow> (Inr key, emit (Print (KeyLoaded (take 5 key)))
                                (emit NestAsyncioApply (emit GetEnv (emit LoadDotenv w)))))))"
  by (simp add: api_key_load_def api_key_load_body_def call_defs split: option.splits)

lemma api_key_load_quiet:
  "load_paths (trace (snd (api_key_load w))) = load_paths (trace w)"
  "parsed (snd (api_key_load w)) = parsed w"
  by (simp_all add: api_key_load_eq load_paths_append split: option.splits)

lemma handler_fst: "fst (pdf_file_load_handler folder e w) = Inr []"
  by (cases e) (simp_all add: pdf_file_load_handler_def call_defs)

lemma handler_loads:
  "load_paths (trace (snd (pdf_file_load_handler folder e w))) = load_paths (trace w)"
  by (cases e) (simp_all add: pdf_file_load_handler_def call_defs load_paths_append)

lemma pdf_file_load_fst:
  "fst (pdf_file_load folder w) =
     (case fst (pdf_file_load_body folder w) of Inl e \<Rightarrow> Inr [] | Inr r \<Rightarrow> Inr r)"
  by (simp add: pdf_file_load_def io_try_def handler_fst split: prod.splits sum.splits)

lemma pdf_file_load_loads:
  "load_paths (trace (snd (pdf_file_load folder w))) =
     load_paths (trace (snd (pdf_file_load_body folder w)))"
  by (simp add: pdf_file_load_def io_try_def handler_loads split: prod.splits sum.splits)

lemma body_eq:
  "pdf_file_load_body folder w =
     (case api_key_load w of
        (Inl e, w1) \<Rightarrow> (Inl e, w1)
      | (Inr key, w1) \<Rightarrow>
         if \<not> path_exists w folder
         then (Inr [], emit (Print (FolderMissing folder)) (emit (PathExists folder) w1))
         else if \<not> path_isdir w folder
         then (Inr [], emit (Print (NotAFolder folder))
                 (emit (PathIsDir folder) (emit (PathExists folder) w1)))
         else (case parser_fault w of
                 Some e \<Rightarrow> (Inl e, emit NewLlamaParse
                               (emit (PathIsDir folder) (emit (PathExists folder) w1)))
               | None \<Rightarrow>
                  (case listing w folder of
                     Inl e \<Rightarrow> (Inl e, emit (ListDir folder) (emit NewLlamaParse
                                 (emit (PathIsDir folder) (emit (PathExists folder) w1))))
                   | Inr entries \<Rightarrow>
                      if select_loop folder entries [] = []
                      then (Inr [], emit (Print (NoPdfFiles folder))
                              (emit (ListDir folder) (emit NewLlamaParse
                                 (emit (PathIsDir folder) (emit (PathExists folder) w1)))))
                      else parse_loop (select_loop folder entries []) []
                             (emit (Print (PdfFilesFound folder
                                             (length (select_loop folder entries []))))
                                (emit (ListDir folder) (emit NewLlamaParse
                                   (emit (PathIsDir folder) (emit (PathExists folder) w1))))))))"
  unfolding pdf_file_load_body_def api_key_load_eq
  by (simp add: call_defs Let_def split: option.splits sum.splits)

lemma body_fst:
  "fst (pdf_file_load_body folder w) =
     (case fst (api_key_load w) of
        Inl e \<Rightarrow> Inl e
      | Inr key \<Rightarrow>
         if \<not> path_exists w folder then Inr []
         else if \<not> path_isdir w folder then Inr []
         else (case parser_fault w of
                 Some e \<Rightarrow> Inl e
               | None \<Rightarrow>
                  (case listing w folder of
                     Inl e \<Rightarrow> Inl e
                   | Inr entries \<Rightarrow>
                      if select_loop folder entries [] = [] then Inr []
                      else parse_all (parsed w) (select_loop folder entries []) [])))"
  unfolding pdf_file_load_body_def api_key_load_eq
  by (simp add: call_defs Let_def parse_loop_fst split: option.splits sum.splits)

lemma body_loads:
  "load_paths (trace (snd (pdf_file_load_body folder w))) =
     load_paths (trace w) @
     (case fst (api_key_load w) of
        Inl e \<Rightarrow> []
      | Inr key \<Rightarrow>
         if path_isdir w folder \<and> parser_fault w = None
         then (case listing w folder of
                 Inl e \<Rightarrow> []
               | Inr entries \<Rightarrow> attempted (parsed w) (select_loop folder entries []))
         else [])"
proof (cases "api_key_load w")
  case (Pair res w1)
  with api_key_load_quiet [of w]
  have q: "load_paths (trace w1) = load_paths (trace w)" "parsed w1 = parsed w"
    by simp_all
  have d: "path_isdir w folder \<Longrightarrow> path_exists w folder"
    by (simp add: path_isdir_def path_exists_def)
  show ?thesis
    unfolding body_eq Pair
    by (auto simp: q d load_paths_append parse_loop_loads split: sum.splits option.splits)
qed

lemma missing_key_run:
  assumes "env_api_key w = None"
  shows "pdf_file_load folder w =
           (case dotenv_fault w of
              Some e \<Rightarrow> (Inr [], emit (Print (LoadFailed (KeyLoadFailed (str_exn e))))
                            (emit LoadDotenv w))
            | None \<Rightarrow> (Inr [], emit (Print (LoadFailed (KeyLoadFailed KeyNotSet)))
                          (emit GetEnv (emit LoadDotenv w))))"
  using assms
  unfolding pdf_file_load_def pdf_file_load_body_def pdf_file_load_handler_def
  by (simp add: io_try_def io_bind_def api_key_load_eq io_return_def print_line_def
           split: option.splits)

lemma nonempty_result_is_complete:
  assumes "fst (pdf_file_load folder w) = Inr r" and "r \<noteq> []"
  shows "\<exists>listed. listing w folder = Inr listed \<and>
           (\<forall>p\<in>set (select_loop folder listed []). \<exists>docs. parsed w p = Inr docs) \<and>
           fst ` set r = stem_of ` set (select_loop folder listed [])"
proof -
  from assms have "fst (pdf_file_load_body folder w) = Inr r"
    by (auto simp: pdf_file_load_fst split: sum.splits)
  with assms(2) obtain listed where l: "listing w folder = Inr listed"
    and p: "parse_all (parsed w) (select_loop folder listed []) [] = Inr r"
    by (auto simp: body_fst split: sum.splits option.splits if_splits)
  from parse_all_Inr [OF p] l show ?thesis
    by auto
qed

section \<open>What the loader returns\<close>

text \<open>
  C2, as the code has it. When the credential is absent, \<open>api_key_load\<close> raises a
  \<open>ValueError\<close>, and \<open>pdf_file_load\<close>, which calls it inside its \<open>try\<close>, catches
  it: the caller gets the empty mapping, and no call that touches the folder or a
  file of it has been made.
\<close>

theorem missing_credential_is_caught:
  assumes "env_api_key w = None"
  shows "(\<exists>m. fst (api_key_load w) = Inl (ValueError m)) \<and>
         fst (pdf_file_load folder_path w) = Inr [] \<and>
         filter folder_access (trace (snd (pdf_file_load folder_path w))) =
           filter folder_access (trace w)"
proof -
  from assms have "\<exists>m. fst (api_key_load w) = Inl (ValueError m)"
    by (simp add: api_key_load_eq split: option.splits)
  moreover from assms have "fst (pdf_file_load folder_path w) = Inr []"
    by (simp add: missing_key_run split: option.splits)
  moreover from assms
  have "filter folder_access (trace (snd (pdf_file_load folder_path w))) =
          filter folder_access (trace w)"
    by (simp add: missing_key_run split: option.splits)
  ultimately show ?thesis by blast
qed

theorem missing_credential_is_caught_witness:
  "env_api_key no_key_world = None \<and>
   (\<exists>m. fst (api_key_load no_key_world) = Inl (ValueError m)) \<and>
   fst (pdf_file_load ''data'' no_key_world) = Inr [] \<and>
   filter folder_access (trace (snd (pdf_file_load ''data'' no_key_world))) = []"
proof -
  have h: "env_api_key no_key_world = None"
    by (simp add: no_key_world_def)
  have t: "trace no_key_world = []"
    by (simp add: no_key_world_def quiet_world_def)
  from missing_credential_is_caught [OF h, of "''data''"] h show ?thesis
    by (simp add: t)
qed

text \<open>
  The claim C2 as it is written fails: with no credential the loader returns the
  empty mapping to its caller and raises nothing.
\<close>

theorem missing_credential_not_raised:
  "env_api_key no_key_world = None \<and>
   pdf_file_load ''data'' no_key_world =
     (Inr [], no_key_world\<lparr>trace :=
        [LoadDotenv, GetEnv, Print (LoadFailed (KeyLoadFailed KeyNotSet))]\<rparr>)"
  by (simp add: no_key_world_def quiet_world_def missing_key_run emit_def)

text \<open>
  C7. For a folder path that names nothing in the file system, the empty path among
  them, the loader returns the empty mapping; it does not raise.
\<close>

theorem missing_folder_gives_empty_mapping:
  assumes "folder_path = [] \<or> nodes w folder_path = None"
  shows "fst (pdf_file_load folder_path w) = Inr []"
proof -
  from assms have "\<not> path_exists w folder_path"
    by (auto simp: path_exists_def)
  then show ?thesis
    by (simp add: pdf_file_load_fst body_fst split: sum.splits)
qed

theorem missing_folder_gives_empty_mapping_witness:
  "nodes quiet_world ''data'' = None \<and>
   fst (pdf_file_load ''data'' quiet_world) = Inr [] \<and>
   fst (pdf_file_load [] pdf_world) = Inr []"
proof -
  have h: "nodes quiet_world ''data'' = None"
    by (simp add: quiet_world_def)
  from missing_folder_gives_empty_mapping [of "''data''" quiet_world]
       missing_folder_gives_empty_mapping [of "[]" pdf_world] h
  show ?thesis
    by simp
qed

text \<open>
  C5. An exception raised anywhere inside the \<open>try\<close> of the loader leaves the
  caller with the empty mapping. In particular, when the parser fails on any of
  the selected files, what the files before it gave is discarded.
\<close>

theorem exception_discards_all_results:
  assumes "fst (pdf_file_load_body folder_path w) = Inl e \<or>
           (listing w folder_path = Inr entries \<and>
            pdf_file \<in> set (select_loop folder_path entries []) \<and>
            parsed w pdf_file = Inl e)"
  shows "fst (pdf_file_load folder_path w) = Inr []"
  using assms
proof
  assume "fst (pdf_file_load_body folder_path w) = Inl e"
  then show ?thesis
    by (simp add: pdf_file_load_fst)
next
  assume a: "listing w folder_path = Inr entries \<and>
             pdf_file \<in> set (select_loop folder_path entries []) \<and>
             parsed w pdf_file = Inl e"
  then obtain e' where "parse_all (parsed w) (select_loop folder_path entries []) [] = Inl e'"
    using parse_all_fails [of pdf_file "select_loop folder_path entries []" "parsed w" e "[]"]
    by blast
  with a show ?thesis
    by (simp add: pdf_file_load_fst body_fst split: sum.splits option.splits)
qed

theorem exception_discards_all_results_witness:
  "listing broken_world ''data'' = Inr [''a.pdf'', ''b.pdf''] \<and>
   select_loop ''data'' [''a.pdf'', ''b.pdf''] [] = [''data/a.pdf'', ''data/b.pdf''] \<and>
   parsed broken_world ''data/a.pdf'' = Inr [\<lparr>doc_text = ''data/a.pdf''\<rparr>] \<and>
   parsed broken_world ''data/b.pdf'' = Inl (OtherException (Msg ''timeout'')) \<and>
   fst (pdf_file_load ''data'' broken_world) = Inr []"
proof -
  have l: "listing broken_world ''data'' = Inr [''a.pdf'', ''b.pdf'']"
    by (simp add: broken_world_def folder_world_def)
  have s: "select_loop ''data'' [''a.pdf'', ''b.pdf''] [] = [''data/a.pdf'', ''data/b.pdf'']"
    by code_simp
  have a: "parsed broken_world ''data/a.pdf'' = Inr [\<lparr>doc_text = ''data/a.pdf''\<rparr>]"
    by (simp add: broken_world_def folder_world_def)
  have b: "parsed broken_world ''data/b.pdf'' = Inl (OtherException (Msg ''timeout''))"
    by (simp add: broken_world_def folder_world_def)
  have m: "''data/b.pdf'' \<in> set (select_loop ''data'' [''a.pdf'', ''b.pdf''] [])"
    by (simp only: s) simp
  from l m b
  have "fst (pdf_file_load_body ''data'' broken_world) = Inl (OtherException (Msg ''timeout'')) \<or>
        (listing broken_world ''data'' = Inr [''a.pdf'', ''b.pdf''] \<and>
         ''data/b.pdf'' \<in> set (select_loop ''data'' [''a.pdf'', ''b.pdf''] []) \<and>
         parsed broken_world ''data/b.pdf'' = Inl (OtherException (Msg ''timeout'')))"
    by blast
  from exception_discards_all_results [OF this] l s a b show ?thesis
    by blast
qed

lemma attempted_all:
  "\<forall>p\<in>set ps. \<exists>docs. pr p = Inr docs \<Longrightarrow> attempted pr ps = ps"
proof (induction ps)
  case Nil
  show ?case by simp
next
  case (Cons q qs)
  then obtain docs where "pr q = Inr docs" by auto
  with Cons show ?case by simp
qed

lemma parse_all_keeps:
  "parse_all pr ps rd = Inr r \<Longrightarrow> k \<notin> stem_of ` set ps \<Longrightarrow> map_of r k = map_of rd k"
proof (induction ps arbitrary: rd)
  case Nil
  then show ?case by simp
next
  case (Cons p ps)
  from Cons.prems(1) obtain docs
    where rest: "parse_all pr ps (AList.update (stem_of p) docs rd) = Inr r"
    by (auto split: sum.splits)
  from Cons.prems(2) have k: "k \<notin> stem_of ` set ps" and ne: "k \<noteq> stem_of p"
    by auto
  from Cons.IH [OF rest k] ne show ?case
    by (simp add: update_conv')
qed

lemma parse_all_append:
  "parse_all pr (xs @ ys) rd =
     (case parse_all pr xs rd of Inl e \<Rightarrow> Inl e | Inr rd' \<Rightarrow> parse_all pr ys rd')"
  by (induction xs arbitrary: rd) (simp_all split: sum.splits)

lemma parse_all_last:
  assumes "parse_all pr (ps @ p # qs) rd = Inr r"
      and "pr p = Inr docs"
      and "stem_of p \<notin> stem_of ` set qs"
  shows "map_of r (stem_of p) = Some docs"
proof -
  from assms(1) obtain rd1 where "parse_all pr (p # qs) rd1 = Inr r"
    by (auto simp: parse_all_append split: sum.splits)
  with assms(2) have rest: "parse_all pr qs (AList.update (stem_of p) docs rd1) = Inr r"
    by simp
  from parse_all_keeps [OF rest assms(3)] show ?thesis
    by (simp add: update_conv')
qed

text \<open>
  C8. The loop over the directory listing keeps an entry exactly when its name in
  lower case ends with \<open>.pdf\<close>, in the order of the listing, joined to the folder
  path. The loader hands to the parser exactly these files of the listing of its
  folder, in this order, up to the first on which the parser raises: all of them
  when every one parses, and none when the loader does not reach its loop. An
  entry without the extension is never handed to the parser.
\<close>

theorem only_pdf_entries_are_parsed:
  "select_loop folder_path entries [] =
     map (os_path_join folder_path)
       (filter (\<lambda>file. str_endswith (str_lower file) ''.pdf'') entries) \<and>
   load_paths (trace (snd (pdf_file_load folder_path w))) =
     load_paths (trace w) @
     (case fst (api_key_load w) of
        Inl e \<Rightarrow> []
      | Inr key \<Rightarrow>
         if path_isdir w folder_path \<and> parser_fault w = None
         then (case listing w folder_path of
                 Inl e \<Rightarrow> []
               | Inr listed \<Rightarrow>
                   attempted (parsed w)
                     (map (os_path_join folder_path)
                        (filter (\<lambda>file. str_endswith (str_lower file) ''.pdf'') listed)))
         else []) \<and>
   (\<exists>called.
      load_paths (trace (snd (pdf_file_load folder_path w))) = load_paths (trace w) @ called \<and>
      prefix called
        (case listing w folder_path of
           Inl e \<Rightarrow> []
         | Inr listed \<Rightarrow>
             map (os_path_join folder_path)
               (filter (\<lambda>file. str_endswith (str_lower file) ''.pdf'') listed))) \<and>
   (fst (api_key_load w) = Inr key \<and> path_isdir w folder_path \<and> parser_fault w = None \<and>
    listing w folder_path = Inr entries \<and>
    (\<forall>file\<in>set entries. str_endswith (str_lower file) ''.pdf'' \<longrightarrow>
        (\<exists>docs. parsed w (os_path_join folder_path file) = Inr docs)) \<longrightarrow>
    load_paths (trace (snd (pdf_file_load folder_path w))) =
      load_paths (trace w) @
      map (os_path_join folder_path)
        (filter (\<lambda>file. str_endswith (str_lower file) ''.pdf'') entries))"
proof -
  let ?pdfs = "\<lambda>listed. map (os_path_join folder_path)
                 (filter (\<lambda>file. str_endswith (str_lower file) ''.pdf'') listed)"
  let ?called = "case fst (api_key_load w) of
        Inl e \<Rightarrow> []
      | Inr key \<Rightarrow>
         if path_isdir w folder_path \<and> parser_fault w = None
         then (case listing w folder_path of
                 Inl e \<Rightarrow> []
               | Inr listed \<Rightarrow> attempted (parsed w) (?pdfs listed))
         else []"
  have sl: "select_loop folder_path listed [] = ?pdfs listed" for listed
    by (simp add: select_loop_eq)
  have B: "load_paths (trace (snd (pdf_file_load folder_path w))) =
             load_paths (trace w) @ ?called"
    by (simp only: pdf_file_load_loads body_loads sl)
  have P: "prefix ?called (case listing w folder_path of Inl e \<Rightarrow> [] | Inr listed \<Rightarrow> ?pdfs listed)"
  proof (cases "fst (api_key_load w)")
    case (Inl e)
    then show ?thesis by simp
  next
    case (Inr k)
    show ?thesis
    proof (cases "listing w folder_path")
      case (Inl e)
      with Inr show ?thesis by simp
    next
      case listed: (Inr listed)
      from Inr listed attempted_prefix [of "parsed w" "?pdfs listed"] show ?thesis
        by simp
    qed
  qed
  have D: "load_paths (trace (snd (pdf_file_load folder_path w))) =
             load_paths (trace w) @ ?pdfs entries"
    if ok: "fst (api_key_load w) = Inr key \<and> path_isdir w folder_path \<and> parser_fault w = None \<and>
            listing w folder_path = Inr entries \<and>
            (\<forall>file\<in>set entries. str_endswith (str_lower file) ''.pdf'' \<longrightarrow>
               (\<exists>docs. parsed w (os_path_join folder_path file) = Inr docs))"
  proof -
    from ok have "\<forall>p\<in>set (?pdfs entries). \<exists>docs. parsed w p = Inr docs"
      by auto
    then have "attempted (parsed w) (?pdfs entries) = ?pdfs entries"
      by (rule attempted_all)
    with ok have "?called = ?pdfs entries"
      by simp
    with B show ?thesis
      by (simp only:)
  qed
  show ?thesis
  proof (intro conjI impI)
    show "select_loop folder_path entries [] = ?pdfs entries"
      by (rule sl)
    show "load_paths (trace (snd (pdf_file_load folder_path w))) = load_paths (trace w) @ ?called"
      by (rule B)
    from B P show "\<exists>called.
        load_paths (trace (snd (pdf_file_load folder_path w))) = load_paths (trace w) @ called \<and>
        prefix called (case listing w folder_path of Inl e \<Rightarrow> [] | Inr listed \<Rightarrow> ?pdfs listed)"
      by (intro exI conjI)
  next
    assume "fst (api_key_load w) = Inr key \<and> path_isdir w folder_path \<and> parser_fault w = None \<and>
            listing w folder_path = Inr entries \<and>
            (\<forall>file\<in>set entries. str_endswith (str_lower file) ''.pdf'' \<longrightarrow>
               (\<exists>docs. parsed w (os_path_join folder_path file) = Inr docs))"
    then show "load_paths (trace (snd (pdf_file_load folder_path w))) =
                 load_paths (trace w) @ ?pdfs entries"
      by (rule D)
  qed
qed


theorem only_pdf_entries_are_parsed_witness:
  "fst (api_key_load pdf_world) = Inr ''llx-0123456789'' \<and>
   listing pdf_world ''data'' = Inr [''a.pdf'', ''notes.txt'', ''B.PDF''] \<and>
   load_paths (trace (snd (pdf_file_load ''data'' pdf_world))) = [''data/a.pdf'', ''data/B.PDF''] \<and>
   ''data/notes.txt'' \<notin> set (load_paths (trace (snd (pdf_file_load ''data'' pdf_world))))"
proof -
  let ?entries = "[''a.pdf'', ''notes.txt'', ''B.PDF'']"
  have k: "fst (api_key_load pdf_world) = Inr ''llx-0123456789''"
    by code_simp
  have d: "path_isdir pdf_world ''data''"
    by code_simp
  have pf: "parser_fault pdf_world = None"
    by (simp add: pdf_world_def folder_world_def quiet_world_def)
  have l: "listing pdf_world ''data'' = Inr ?entries"
    by (simp add: pdf_world_def folder_world_def)
  have p: "\<forall>file\<in>set ?entries. str_endswith (str_lower file) ''.pdf'' \<longrightarrow>
             (\<exists>docs. parsed pdf_world (os_path_join ''data'' file) = Inr docs)"
    by (simp add: pdf_world_def folder_world_def)
  have t: "load_paths (trace pdf_world) = []"
    by (simp add: pdf_world_def folder_world_def quiet_world_def)
  have f: "map (os_path_join ''data'')
             (filter (\<lambda>file. str_endswith (str_lower file) ''.pdf'') ?entries) =
           [''data/a.pdf'', ''data/B.PDF'']"
    by code_simp
  from k d pf l p
  have ok: "fst (api_key_load pdf_world) = Inr ''llx-0123456789'' \<and> path_isdir pdf_world ''data'' \<and>
            parser_fault pdf_world = None \<and> listing pdf_world ''data'' = Inr ?entries \<and>
            (\<forall>file\<in>set ?entries. str_endswith (str_lower file) ''.pdf'' \<longrightarrow>
               (\<exists>docs. parsed pdf_world (os_path_join ''data'' file) = Inr docs))"
    by (intro conjI)
  note all_parsed = only_pdf_entries_are_parsed [of "''data''" ?entries pdf_world "''llx-0123456789''",
      THEN conjunct2, THEN conjunct2, THEN conjunct2]
  from mp [OF all_parsed ok]
  have c: "load_paths (trace (snd (pdf_file_load ''data'' pdf_world))) =
                  [''data/a.pdf'', ''data/B.PDF'']"
    by (simp only: t f append_Nil)
  then have n: "''data/notes.txt'' \<notin> set (load_paths (trace (snd (pdf_file_load ''data'' pdf_world))))"
    by simp
  from k l c n show ?thesis
    by (intro conjI)
qed

text \<open>
  C4, as the code has it. When \<open>api_key_load\<close> succeeds, the folder is a directory,
  the parser can be set up, the listing succeeds and every selected file parses,
  the loader returns a mapping whose keys are exactly the stems of the selected
  files, one entry for each stem. It has as many entries as there are selected
  files when their stems differ from one another, and fewer when two of them
  share a stem. Under each stem it holds the pages of the last selected file that
  has this stem.
\<close>

theorem loader_mapping_keyed_by_stem:
  assumes "fst (api_key_load w) = Inr key"
      and "path_isdir w folder_path"
      and "parser_fault w = None"
      and "listing w folder_path = Inr entries"
      and "\<forall>pdf_file\<in>set (select_loop folder_path entries []). \<exists>docs. parsed w pdf_file = Inr docs"
  shows "\<exists>r. fst (pdf_file_load folder_path w) = Inr r \<and>
             fst ` set r = stem_of ` set (select_loop folder_path entries []) \<and>
             distinct (map fst r) \<and>
             length r = card (stem_of ` set (select_loop folder_path entries [])) \<and>
             (distinct (map stem_of (select_loop folder_path entries [])) \<longrightarrow>
                length r =
                length (filter (\<lambda>file. str_endswith (str_lower file) ''.pdf'') entries)) \<and>
             (\<not> distinct (map stem_of (select_loop folder_path entries [])) \<longrightarrow>
                length r <
                length (filter (\<lambda>file. str_endswith (str_lower file) ''.pdf'') entries)) \<and>
             (\<forall>before pdf_file after docs.
                select_loop folder_path entries [] = before @ pdf_file # after \<and>
                stem_of pdf_file \<notin> stem_of ` set after \<and>
                parsed w pdf_file = Inr docs \<longrightarrow>
                map_of r (stem_of pdf_file) = Some docs)"
proof -
  let ?sel = "select_loop folder_path entries []"
  from parse_all_succeeds [OF assms(5)] obtain r where r: "parse_all (parsed w) ?sel [] = Inr r"
    by blast
  from assms(2) have ex: "path_exists w folder_path"
    by (simp add: path_isdir_def path_exists_def)
  have res: "fst (pdf_file_load folder_path w) = Inr r"
  proof (cases "?sel = []")
    case True
    with r have "r = []" by simp
    with True assms(1-4) ex show ?thesis
      by (simp add: pdf_file_load_fst body_fst)
  next
    case False
    with r assms(1-4) ex show ?thesis
      by (simp add: pdf_file_load_fst body_fst)
  qed
  from parse_all_Inr [OF r] have keys: "fst ` set r = stem_of ` set ?sel"
    and dist: "distinct (map fst r)"
    by auto
  from dist have "card (set (map fst r)) = length (map fst r)"
    by (rule distinct_card)
  with keys have len: "length r = card (stem_of ` set ?sel)"
    by simp
  have full: "distinct (map stem_of ?sel) \<longrightarrow>
      length r = length (filter (\<lambda>file. str_endswith (str_lower file) ''.pdf'') entries)"
  proof
    assume d: "distinct (map stem_of ?sel)"
    then have "card (set (map stem_of ?sel)) = length (map stem_of ?sel)"
      by (rule distinct_card)
    with len have "length r = length ?sel"
      by simp
    then show "length r = length (filter (\<lambda>file. str_endswith (str_lower file) ''.pdf'') entries)"
      by (simp add: select_loop_eq)
  qed
  have fewer: "\<not> distinct (map stem_of ?sel) \<longrightarrow>
      length r < length (filter (\<lambda>file. str_endswith (str_lower file) ''.pdf'') entries)"
  proof
    assume nd: "\<not> distinct (map stem_of ?sel)"
    have "card (set (map stem_of ?sel)) \<le> length (map stem_of ?sel)"
      by (rule card_length)
    moreover from nd have "card (set (map stem_of ?sel)) \<noteq> length (map stem_of ?sel)"
      using card_distinct [of "map stem_of ?sel"] by blast
    ultimately have "card (stem_of ` set ?sel) < length ?sel"
      by simp
    with len have "length r < length ?sel"
      by simp
    then show "length r < length (filter (\<lambda>file. str_endswith (str_lower file) ''.pdf'') entries)"
      by (simp add: select_loop_eq)
  qed
  have pages: "\<forall>before pdf_file after docs.
                ?sel = before @ pdf_file # after \<and>
                stem_of pdf_file \<notin> stem_of ` set after \<and>
                parsed w pdf_file = Inr docs \<longrightarrow>
                map_of r (stem_of pdf_file) = Some docs"
  proof (intro allI impI, elim conjE)
    fix before pdf_file after docs
    assume s: "?sel = before @ pdf_file # after"
      and last: "stem_of pdf_file \<notin> stem_of ` set after"
      and docs: "parsed w pdf_file = Inr docs"
    from r s have "parse_all (parsed w) (before @ pdf_file # after) [] = Inr r"
      by (simp only:)
    from this docs last show "map_of r (stem_of pdf_file) = Some docs"
      by (rule parse_all_last)
  qed
  from res keys dist len full fewer pages show ?thesis
    by (intro exI [of _ r] conjI)
qed

theorem loader_mapping_keyed_by_stem_witness:
  "fst (api_key_load pdf_world) = Inr ''llx-0123456789'' \<and>
   listing pdf_world ''data'' = Inr [''a.pdf'', ''notes.txt'', ''B.PDF''] \<and>
   (\<exists>r. fst (pdf_file_load ''data'' pdf_world) = Inr r \<and>
        fst ` set r = {''a'', ''B''} \<and> length r = 2 \<and>
        map_of r ''a'' = Some [\<lparr>doc_text = ''data/a.pdf''\<rparr>] \<and>
        map_of r ''B'' = Some [\<lparr>doc_text = ''data/B.PDF''\<rparr>]) \<and>
   listing clash_world ''data'' = Inr [''a.pdf'', ''a.PDF''] \<and>
   (\<exists>r. fst (pdf_file_load ''data'' clash_world) = Inr r \<and> length r < 2 \<and>
        map_of r ''a'' = Some [\<lparr>doc_text = ''data/a.PDF''\<rparr>])"
proof -
  let ?entries = "[''a.pdf'', ''notes.txt'', ''B.PDF'']"
  have k: "fst (api_key_load pdf_world) = Inr ''llx-0123456789''"
    by code_simp
  have d: "path_isdir pdf_world ''data''"
    by code_simp
  have f: "parser_fault pdf_world = None"
    by (simp add: pdf_world_def folder_world_def quiet_world_def)
  have l: "listing pdf_world ''data'' = Inr ?entries"
    by (simp add: pdf_world_def folder_world_def)
  have p: "\<forall>pdf_file\<in>set (select_loop ''data'' ?entries []).
             \<exists>docs. parsed pdf_world pdf_file = Inr docs"
    by (simp add: pdf_world_def folder_world_def)
  have sel: "select_loop ''data'' ?entries [] = [''data/a.pdf'', ''data/B.PDF'']"
    by code_simp
  have st: "stem_of ''data/a.pdf'' = ''a''" "stem_of ''data/B.PDF'' = ''B''"
    by code_simp+
  have n: "length (filter (\<lambda>file. str_endswith (str_lower file) ''.pdf'') ?entries) = 2"
    by code_simp
  have dst: "distinct (map stem_of [''data/a.pdf'', ''data/B.PDF''])"
    by (simp add: st)
  have pa: "parsed pdf_world ''data/a.pdf'' = Inr [\<lparr>doc_text = ''data/a.pdf''\<rparr>]"
    and pb: "parsed pdf_world ''data/B.PDF'' = Inr [\<lparr>doc_text = ''data/B.PDF''\<rparr>]"
    by (simp_all add: pdf_world_def folder_world_def)
  from loader_mapping_keyed_by_stem [OF k d f l p] obtain r
    where a: "fst (pdf_file_load ''data'' pdf_world) = Inr r"
      and b: "fst ` set r = stem_of ` set (select_loop ''data'' ?entries [])"
      and c: "distinct (map stem_of (select_loop ''data'' ?entries [])) \<longrightarrow>
             length r = length (filter (\<lambda>file. str_endswith (str_lower file) ''.pdf'') ?entries)"
      and v: "\<forall>before pdf_file after docs.
                select_loop ''data'' ?entries [] = before @ pdf_file # after \<and>
                stem_of pdf_file \<notin> stem_of ` set after \<and>
                parsed pdf_world pdf_file = Inr docs \<longrightarrow>
                map_of r (stem_of pdf_file) = Some docs"
    by (elim exE conjE)
  from b [unfolded sel] have b': "fst ` set r = {''a'', ''B''}"
    by (simp add: st)
  from c [unfolded sel n] dst have c': "length r = 2"
    by (rule mp)
  have "select_loop ''data'' ?entries [] = [] @ ''data/a.pdf'' # [''data/B.PDF''] \<and>
        stem_of ''data/a.pdf'' \<notin> stem_of ` set [''data/B.PDF''] \<and>
        parsed pdf_world ''data/a.pdf'' = Inr [\<lparr>doc_text = ''data/a.pdf''\<rparr>]"
    unfolding sel by (simp add: st pa)
  from v [THEN spec, THEN spec, THEN spec, THEN spec, THEN mp, OF this]
  have "map_of r (stem_of ''data/a.pdf'') = Some [\<lparr>doc_text = ''data/a.pdf''\<rparr>]" .
  then have va: "map_of r ''a'' = Some [\<lparr>doc_text = ''data/a.pdf''\<rparr>]"
    by (simp only: st)
  have "select_loop ''data'' ?entries [] = [''data/a.pdf''] @ ''data/B.PDF'' # [] \<and>
        stem_of ''data/B.PDF'' \<notin> stem_of ` set [] \<and>
        parsed pdf_world ''data/B.PDF'' = Inr [\<lparr>doc_text = ''data/B.PDF''\<rparr>]"
    unfolding sel by (simp add: st pb)
  from v [THEN spec, THEN spec, THEN spec, THEN spec, THEN mp, OF this]
  have "map_of r (stem_of ''data/B.PDF'') = Some [\<lparr>doc_text = ''data/B.PDF''\<rparr>]" .
  then have vb: "map_of r ''B'' = Some [\<lparr>doc_text = ''data/B.PDF''\<rparr>]"
    by (simp only: st)
  from a b' c' va vb
  have first: "\<exists>r. fst (pdf_file_load ''data'' pdf_world) = Inr r \<and>
        fst ` set r = {''a'', ''B''} \<and> length r = 2 \<and>
        map_of r ''a'' = Some [\<lparr>doc_text = ''data/a.pdf''\<rparr>] \<and>
        map_of r ''B'' = Some [\<lparr>doc_text = ''data/B.PDF''\<rparr>]"
    by (intro conjI exI [of _ r])
  let ?twins = "[''a.pdf'', ''a.PDF'']"
  have k2: "fst (api_key_load clash_world) = Inr ''llx-0123456789''"
    by code_simp
  have d2: "path_isdir clash_world ''data''"
    by code_simp
  have f2: "parser_fault clash_world = None"
    by (simp add: clash_world_def folder_world_def quiet_world_def)
  have l2: "listing clash_world ''data'' = Inr ?twins"
    by (simp add: clash_world_def folder_world_def)
  have p2: "\<forall>pdf_file\<in>set (select_loop ''data'' ?twins []).
              \<exists>docs. parsed clash_world pdf_file = Inr docs"
    by (simp add: clash_world_def folder_world_def)
  have sel2: "select_loop ''data'' ?twins [] = [''data/a.pdf'', ''data/a.PDF'']"
    by code_simp
  have st2: "stem_of ''data/a.PDF'' = ''a''"
    by code_simp
  have n2: "length (filter (\<lambda>file. str_endswith (str_lower file) ''.pdf'') ?twins) = 2"
    by code_simp
  have nd: "\<not> distinct (map stem_of [''data/a.pdf'', ''data/a.PDF''])"
    by (simp add: st st2)
  have pc: "parsed clash_world ''data/a.PDF'' = Inr [\<lparr>doc_text = ''data/a.PDF''\<rparr>]"
    by (simp add: clash_world_def folder_world_def)
  from loader_mapping_keyed_by_stem [OF k2 d2 f2 l2 p2] obtain r2
    where a2: "fst (pdf_file_load ''data'' clash_world) = Inr r2"
      and e2: "\<not> distinct (map stem_of (select_loop ''data'' ?twins [])) \<longrightarrow>
             length r2 < length (filter (\<lambda>file. str_endswith (str_lower file) ''.pdf'') ?twins)"
      and v2: "\<forall>before pdf_file after docs.
                select_loop ''data'' ?twins [] = before @ pdf_file # after \<and>
                stem_of pdf_file \<notin> stem_of ` set after \<and>
                parsed clash_world pdf_file = Inr docs \<longrightarrow>
                map_of r2 (stem_of pdf_file) = Some docs"
    by (elim exE conjE)
  from e2 [unfolded sel2 n2] nd have c2: "length r2 < 2"
    by (rule mp)
  have "select_loop ''data'' ?twins [] = [''data/a.pdf''] @ ''data/a.PDF'' # [] \<and>
        stem_of ''data/a.PDF'' \<notin> stem_of ` set [] \<and>
        parsed clash_world ''data/a.PDF'' = Inr [\<lparr>doc_text = ''data/a.PDF''\<rparr>]"
    unfolding sel2 by (simp add: pc)
  from v2 [THEN spec, THEN spec, THEN spec, THEN spec, THEN mp, OF this]
  have "map_of r2 (stem_of ''data/a.PDF'') = Some [\<lparr>doc_text = ''data/a.PDF''\<rparr>]" .
  then have vc: "map_of r2 ''a'' = Some [\<lparr>doc_text = ''data/a.PDF''\<rparr>]"
    by (simp only: st2)
  from a2 c2 vc
  have second: "\<exists>r. fst (pdf_file_load ''data'' clash_world) = Inr r \<and> length r < 2 \<and>
        map_of r ''a'' = Some [\<lparr>doc_text = ''data/a.PDF''\<rparr>]"
    by (intro conjI exI [of _ r2])
  from k l first l2 second show ?thesis
    by (intro conjI)
qed

text \<open>
  The claim C4 as it is written fails: a folder with the two PDFs \<open>a.pdf\<close> and
  \<open>a.PDF\<close>, both parsed without an exception, gives a mapping with one entry.
\<close>

theorem two_pdfs_one_entry:
  "fst (api_key_load clash_world) = Inr ''llx-0123456789'' \<and>
   listing clash_world ''data'' = Inr [''a.pdf'', ''a.PDF''] \<and>
   length (filter (\<lambda>file. str_endswith (str_lower file) ''.pdf'') [''a.pdf'', ''a.PDF'']) = 2 \<and>
   parsed clash_world ''data/a.pdf'' = Inr [\<lparr>doc_text = ''data/a.pdf''\<rparr>] \<and>
   parsed clash_world ''data/a.PDF'' = Inr [\<lparr>doc_text = ''data/a.PDF''\<rparr>] \<and>
   fst (pdf_file_load ''data'' clash_world) = Inr [(''a'', [\<lparr>doc_text = ''data/a.PDF''\<rparr>])]"
  by code_simp

section \<open>The per-page writer\<close>

lemma written_append: "written (xs @ ys) = written xs @ written ys"
  by (induction xs rule: written.induct) simp_all

lemma str_nat_nonempty: "str_nat n \<noteq> []"
  by (subst str_nat.simps) simp

lemma digit_char_inj:
  assumes "a < 10" and "b < 10" and "digit_char a = digit_char b"
  shows "a = b"
proof -
  from assms(3) have "(of_char (char_of (48 + a)) :: nat) = of_char (char_of (48 + b))"
    by (simp add: digit_char_def)
  with assms(1,2) show ?thesis
    by simp
qed

lemma str_nat_small: "n < 10 \<Longrightarrow> str_nat n = [digit_char n]"
  by (subst str_nat.simps) simp

lemma str_nat_big: "\<not> n < 10 \<Longrightarrow> str_nat n = str_nat (n div 10) @ [digit_char (n mod 10)]"
  by (subst str_nat.simps) simp

lemma str_nat_inj: "str_nat n = str_nat m \<Longrightarrow> n = m"
proof (induction n arbitrary: m rule: str_nat.induct)
  case (1 n)
  show ?case
  proof (cases "n < 10")
    case small_n: True
    show ?thesis
    proof (cases "m < 10")
      case True
      from "1.prems" have "digit_char n = digit_char m"
        unfolding str_nat_small [OF small_n] str_nat_small [OF True] by simp
      with small_n True show ?thesis
        by (rule digit_char_inj)
    next
      case False
      from "1.prems" have "[digit_char n] = str_nat (m div 10) @ [digit_char (m mod 10)]"
        unfolding str_nat_small [OF small_n] str_nat_big [OF False] .
      then have "str_nat (m div 10) = []"
        by simp
      then show ?thesis
        by (simp add: str_nat_nonempty)
    qed
  next
    case big_n: False
    show ?thesis
    proof (cases "m < 10")
      case True
      from "1.prems" have "str_nat (n div 10) @ [digit_char (n mod 10)] = [digit_char m]"
        unfolding str_nat_small [OF True] str_nat_big [OF big_n] .
      then have "str_nat (n div 10) = []"
        by simp
      then show ?thesis
        by (simp add: str_nat_nonempty)
    next
      case False
      from "1.prems"
      have "str_nat (n div 10) @ [digit_char (n mod 10)] = str_nat (m div 10) @ [digit_char (m mod 10)]"
        unfolding str_nat_big [OF big_n] str_nat_big [OF False] .
      then have q: "str_nat (n div 10) = str_nat (m div 10)"
        and r: "digit_char (n mod 10) = digit_char (m mod 10)"
        by simp_all
      from "1.IH" [OF big_n q] have d: "n div 10 = m div 10" .
      have "n mod 10 < 10" and "m mod 10 < 10"
        by simp_all
      from this r have e: "n mod 10 = m mod 10"
        by (rule digit_char_inj)
      have "n = 10 * (n div 10) + n mod 10"
        by simp
      also have "\<dots> = 10 * (m div 10) + m mod 10"
        by (simp only: d e)
      also have "\<dots> = m"
        by simp
      finally show ?thesis .
    qed
  qed
qed

lemma os_path_join_inj:
  assumes "\<not> str_startswith a ''/''" and "\<not> str_startswith b ''/''"
      and "os_path_join folder a = os_path_join folder b"
  shows "a = b"
  using assms by (simp add: os_path_join_def split: if_splits)

lemma page_path_inj:
  assumes "page_path out i = page_path out j"
  shows "i = j"
proof -
  have a: "\<not> str_startswith (''document_'' @ str_nat (i + 1) @ ''.md'') ''/''"
    and b: "\<not> str_startswith (''document_'' @ str_nat (j + 1) @ ''.md'') ''/''"
    by (simp_all add: str_startswith_def)
  from assms have "os_path_join out (''document_'' @ str_nat (i + 1) @ ''.md'') =
                   os_path_join out (''document_'' @ str_nat (j + 1) @ ''.md'')"
    by (simp only: page_path_def)
  with a b have "''document_'' @ str_nat (i + 1) @ ''.md'' = ''document_'' @ str_nat (j + 1) @ ''.md''"
    by (rule os_path_join_inj)
  then have "str_nat (i + 1) = str_nat (j + 1)"
    by simp
  then have "i + 1 = j + 1"
    by (rule str_nat_inj)
  then show ?thesis
    by simp
qed


lemma nodes_update_fields [simp]:
  "write_fault (w\<lparr>nodes := n\<rparr>) = write_fault w"
  "trace (w\<lparr>nodes := n\<rparr>) = trace w"
  by simp_all

lemma save_loop_Cons:
  assumes "write_fault w (page_path out i) (doc_text d) = None"
  shows "save_loop out i (d # ds) w =
           save_loop out (Suc i) ds
             (emit (Print (SavedPage (Suc i) (page_path out i)))
                (emit (OpenWrite (page_path out i) (doc_text d))
                   (w\<lparr>nodes := (nodes w)(page_path out i \<mapsto> File (doc_text d))\<rparr>)))"
  using assms by (simp add: call_defs open_write_def Let_def page_path_def)

lemma save_loop_run:
  assumes "\<forall>k<length docs. write_fault w (page_path out (i + k)) (doc_text (docs ! k)) = None"
  shows "fst (save_loop out i docs w) = Inr () \<and>
         written (trace (snd (save_loop out i docs w))) =
           written (trace w) @ zip (map (page_path out) [i..<i + length docs]) (map doc_text docs) \<and>
         (\<forall>p. p \<notin> page_path out ` {i..<i + length docs} \<longrightarrow>
              nodes (snd (save_loop out i docs w)) p = nodes w p) \<and>
         (\<forall>k<length docs.
              nodes (snd (save_loop out i docs w)) (page_path out (i + k)) =
              Some (File (doc_text (docs ! k))))"
  using assms
proof (induction docs arbitrary: i w)
  case Nil
  show ?case by (simp add: io_return_def)
next
  case (Cons d ds)
  let ?w1 = "emit (Print (SavedPage (Suc i) (page_path out i)))
                (emit (OpenWrite (page_path out i) (doc_text d))
                   (w\<lparr>nodes := (nodes w)(page_path out i \<mapsto> File (doc_text d))\<rparr>))"
  let ?end = "snd (save_loop out (Suc i) ds ?w1)"
  from Cons.prems have first: "write_fault w (page_path out i) (doc_text d) = None"
    by force
  have rest: "\<forall>k<length ds. write_fault ?w1 (page_path out (Suc i + k)) (doc_text (ds ! k)) = None"
  proof (intro allI impI)
    fix k assume "k < length ds"
    then have "Suc k < length (d # ds)" by simp
    with Cons.prems have "write_fault w (page_path out (i + Suc k)) (doc_text ((d # ds) ! Suc k)) = None"
      by blast
    then show "write_fault ?w1 (page_path out (Suc i + k)) (doc_text (ds ! k)) = None"
      by simp
  qed
  note step = save_loop_Cons [OF first, of ds]
  from Cons.IH [OF rest]
  have ok: "fst (save_loop out (Suc i) ds ?w1) = Inr ()"
    and wr: "written (trace ?end) =
               written (trace ?w1) @ zip (map (page_path out) [Suc i..<Suc i + length ds]) (map doc_text ds)"
    and frame: "\<And>p. p \<notin> page_path out ` {Suc i..<Suc i + length ds} \<Longrightarrow> nodes ?end p = nodes ?w1 p"
    and content: "\<And>k. k < length ds \<Longrightarrow>
               nodes ?end (page_path out (Suc i + k)) = Some (File (doc_text (ds ! k)))"
    by blast+
  have w1: "written (trace ?w1) = written (trace w) @ [(page_path out i, doc_text d)]"
    by (simp add: written_append)
  have upt: "[i..<i + length (d # ds)] = i # [Suc i..<Suc i + length ds]"
  proof -
    have "i < Suc i + length ds"
      by simp
    then have "[i..<Suc i + length ds] = i # [Suc i..<Suc i + length ds]"
      by (rule upt_conv_Cons)
    moreover have "i + length (d # ds) = Suc i + length ds"
      by simp
    ultimately show ?thesis
      by (simp only:)
  qed
  have A: "fst (save_loop out i (d # ds) w) = Inr ()"
    by (simp only: step ok)
  have B: "written (trace (snd (save_loop out i (d # ds) w))) =
             written (trace w) @
             zip (map (page_path out) [i..<i + length (d # ds)]) (map doc_text (d # ds))"
    by (simp only: step wr w1 upt) simp
  have C: "nodes (snd (save_loop out i (d # ds) w)) p = nodes w p"
    if "p \<notin> page_path out ` {i..<i + length (d # ds)}" for p
  proof -
    from that have ne: "p \<noteq> page_path out i"
      and out': "p \<notin> page_path out ` {Suc i..<Suc i + length ds}"
      by auto
    from frame [OF out'] ne show ?thesis
      by (simp only: step) simp
  qed
  have D: "nodes (snd (save_loop out i (d # ds) w)) (page_path out (i + k)) =
             Some (File (doc_text ((d # ds) ! k)))"
    if "k < length (d # ds)" for k
  proof (cases k)
    case 0
    have "page_path out i \<notin> page_path out ` {Suc i..<Suc i + length ds}"
    proof
      assume "page_path out i \<in> page_path out ` {Suc i..<Suc i + length ds}"
      then obtain j where "j \<in> {Suc i..<Suc i + length ds}" and "page_path out i = page_path out j"
        by blast
      with page_path_inj [of out i j] show False
        by simp
    qed
    from frame [OF this] 0 show ?thesis
      by (simp only: step) simp
  next
    case (Suc k')
    with that have "k' < length ds" by simp
    from content [OF this] Suc show ?thesis
      by (simp only: step) simp
  qed
  from A B C D show ?case
    by blast
qed

lemma save_entry:
  assumes "path_exists w out \<or> makedirs_fault w out = None"
  shows "\<exists>w0. save_documents_as_markdown docs out w = save_loop out 0 docs w0 \<and>
              write_fault w0 = write_fault w \<and> written (trace w0) = written (trace w)"
proof (cases "path_exists w out")
  case True
  then have "save_documents_as_markdown docs out w = save_loop out 0 docs (emit (PathExists out) w)"
    by (simp add: save_documents_as_markdown_def call_defs)
  moreover have "write_fault (emit (PathExists out) w) = write_fault w"
    and "written (trace (emit (PathExists out) w)) = written (trace w)"
    by (simp_all add: written_append)
  ultimately show ?thesis
    by blast
next
  case False
  let ?w0 = "emit (MakeDirs out) ((emit (PathExists out) w)\<lparr>nodes := (nodes w)(out \<mapsto> Dir)\<rparr>)"
  from False assms have "makedirs_fault w out = None"
    by simp
  with False have "save_documents_as_markdown docs out w = save_loop out 0 docs ?w0"
    by (simp add: save_documents_as_markdown_def call_defs os_makedirs_def)
  moreover have "write_fault ?w0 = write_fault w"
    and "written (trace ?w0) = written (trace w)"
    by (simp_all add: written_append)
  ultimately show ?thesis
    by blast
qed

text \<open>
  C9. For a DocumentSet of \<open>n\<close> pages the writer writes \<open>n\<close> files and no other:
  \<open>document_1.md\<close> to \<open>document_n.md\<close> in the output folder, in this order, the file
  of number \<open>k + 1\<close> with the text of the page at index \<open>k\<close> as it is. The names are
  different from one another, so that when the writer returns each file holds its
  page. It returns normally whenever the folder is there or can be made and each
  file can be written.
\<close>

theorem save_writes_one_file_per_page:
  assumes "path_exists w out \<or> makedirs_fault w out = None"
      and "\<forall>k<length docs. write_fault w (page_path out k) (doc_text (docs ! k)) = None"
  shows "fst (save_documents_as_markdown docs out w) = Inr () \<and>
         written (trace (snd (save_documents_as_markdown docs out w))) =
           written (trace w) @
           zip (map (page_path out) [0..<length docs]) (map doc_text docs) \<and>
         distinct (map (page_path out) [0..<length docs]) \<and>
         (\<forall>k<length docs.
            nodes (snd (save_documents_as_markdown docs out w)) (page_path out k) =
            Some (File (doc_text (docs ! k))))"
proof -
  from save_entry [OF assms(1)] obtain w0
    where run: "save_documents_as_markdown docs out w = save_loop out 0 docs w0"
      and wf: "write_fault w0 = write_fault w"
      and wr: "written (trace w0) = written (trace w)"
    by blast
  from assms(2) have "\<forall>k<length docs. write_fault w0 (page_path out (0 + k)) (doc_text (docs ! k)) = None"
    by (simp add: wf)
  from save_loop_run [OF this]
  have "fst (save_loop out 0 docs w0) = Inr ()"
    and "written (trace (snd (save_loop out 0 docs w0))) =
           written (trace w0) @ zip (map (page_path out) [0..<length docs]) (map doc_text docs)"
    and "\<forall>k<length docs.
           nodes (snd (save_loop out 0 docs w0)) (page_path out k) = Some (File (doc_text (docs ! k)))"
    by simp_all
  moreover have "distinct (map (page_path out) [0..<length docs])"
    by (simp add: distinct_map inj_on_def) (blast dest: page_path_inj)
  ultimately show ?thesis
    by (simp only: run wr)
qed

theorem save_writes_one_file_per_page_witness:
  "makedirs_fault quiet_world ''out'' = None \<and>
   fst (save_documents_as_markdown
          [\<lparr>doc_text = ''# T\<newline>\<newline>one''\<rparr>, \<lparr>doc_text = ''# T\<newline>\<newline>two''\<rparr>] ''out'' quiet_world) = Inr () \<and>
   written (trace (snd (save_documents_as_markdown
          [\<lparr>doc_text = ''# T\<newline>\<newline>one''\<rparr>, \<lparr>doc_text = ''# T\<newline>\<newline>two''\<rparr>] ''out'' quiet_world))) =
     [(''out/document_1.md'', ''# T\<newline>\<newline>one''), (''out/document_2.md'', ''# T\<newline>\<newline>two'')] \<and>
   nodes (snd (save_documents_as_markdown
          [\<lparr>doc_text = ''# T\<newline>\<newline>one''\<rparr>, \<lparr>doc_text = ''# T\<newline>\<newline>two''\<rparr>] ''out'' quiet_world))
     ''out/document_2.md'' = Some (File ''# T\<newline>\<newline>two'')"
proof -
  let ?docs = "[\<lparr>doc_text = ''# T\<newline>\<newline>one''\<rparr>, \<lparr>doc_text = ''# T\<newline>\<newline>two''\<rparr>]"
  have m: "makedirs_fault quiet_world ''out'' = None"
    by (simp add: quiet_world_def)
  then have h1: "path_exists quiet_world ''out'' \<or> makedirs_fault quiet_world ''out'' = None"
    by simp
  have h2: "\<forall>k<length ?docs. write_fault quiet_world (page_path ''out'' k) (doc_text (?docs ! k)) = None"
    by (simp add: quiet_world_def)
  have t: "written (trace quiet_world) = []"
    by (simp add: quiet_world_def)
  have z: "zip (map (page_path ''out'') [0..<length ?docs]) (map doc_text ?docs) =
             [(''out/document_1.md'', ''# T\<newline>\<newline>one''), (''out/document_2.md'', ''# T\<newline>\<newline>two'')]"
    by code_simp
  have p2: "page_path ''out'' (Suc 0) = ''out/document_2.md''"
    by code_simp
  from save_writes_one_file_per_page [OF h1 h2]
  have a: "fst (save_documents_as_markdown ?docs ''out'' quiet_world) = Inr ()"
    and b: "written (trace (snd (save_documents_as_markdown ?docs ''out'' quiet_world))) =
              written (trace quiet_world) @
              zip (map (page_path ''out'') [0..<length ?docs]) (map doc_text ?docs)"
    and c: "\<forall>k<length ?docs.
              nodes (snd (save_documents_as_markdown ?docs ''out'' quiet_world)) (page_path ''out'' k) =
              Some (File (doc_text (?docs ! k)))"
    by blast+
  from b have b': "written (trace (snd (save_documents_as_markdown ?docs ''out'' quiet_world))) =
      [(''out/document_1.md'', ''# T\<newline>\<newline>one''), (''out/document_2.md'', ''# T\<newline>\<newline>two'')]"
    by (simp only: t z append_Nil)
  have "(1::nat) < length ?docs"
    by simp
  with c have "nodes (snd (save_documents_as_markdown ?docs ''out'' quiet_world)) (page_path ''out'' 1) =
              Some (File (doc_text (?docs ! 1)))"
    by blast
  then have c': "nodes (snd (save_documents_as_markdown ?docs ''out'' quiet_world)) ''out/document_2.md'' =
              Some (File ''# T\<newline>\<newline>two'')"
    by (simp add: p2)
  from m a b' c' show ?thesis
    by blast
qed

end
